theory Spec2Isabelle
  imports Main "HOL-Library.Char_ord"
begin

section \<open>Python string primitives used by api_gen.py\<close>

text \<open>
  A Python \<open>str\<close> is modelled as a \<open>string\<close> (a list of \<open>char\<close>); a \<open>char\<close> stands for
  a code point below 256. Only the string methods that \<open>api_gen.py\<close> calls are modelled,
  each with the arguments the source gives it.
\<close>

datatype error =
    ValueError string
  | AttributeError string
  | IndexError string

definition startswith :: "string \<Rightarrow> string \<Rightarrow> bool" where
  "startswith s p = (take (length p) s = p)"

text \<open>\<open>str.isspace\<close> on one character, for the code points below 256.\<close>

definition isspace :: "char \<Rightarrow> bool" where
  "isspace c = (c \<in> set [CHR 0x09, CHR 0x0A, CHR 0x0B, CHR 0x0C, CHR 0x0D,
                          CHR 0x1C, CHR 0x1D, CHR 0x1E, CHR 0x1F, CHR 0x20,
                          CHR 0x85, CHR 0xA0])"

text \<open>\<open>s.strip()\<close>: leading and trailing whitespace removed.\<close>

definition strip :: "string \<Rightarrow> string" where
  "strip s = dropWhile isspace (rev (dropWhile isspace (rev s)))"

text \<open>
  \<open>s.replace(old, new, count)\<close> for a non-empty \<open>old\<close> (the source only passes the literals
  \<open>'const'\<close> and the newline): the leftmost non-overlapping occurrences are replaced, at
  most \<open>count\<close> of them, and all of them when \<open>count\<close> is negative (the default is \<open>-1\<close>).
\<close>

function replace :: "string \<Rightarrow> string \<Rightarrow> int \<Rightarrow> string \<Rightarrow> string" where
  "replace old new n s =
     (if n = 0 \<or> s = [] \<or> old = [] then s
      else if startswith s old then new @ replace old new (n - 1) (drop (length old) s)
      else hd s # replace old new n (tl s))"
  by pat_completeness auto
termination
  by (relation "measure (\<lambda>(old, new, n, s). length s)") auto

declare replace.simps [simp del]

text \<open>\<open>s.count(c)\<close> for a one-character \<open>c\<close>.\<close>

definition count_char :: "char \<Rightarrow> string \<Rightarrow> nat" where
  "count_char c s = length (filter (\<lambda>x. x = c) s)"

text \<open>\<open>s.split(c)\<close> for a one-character separator \<open>c\<close>; the result is never empty.\<close>

fun split_on :: "char \<Rightarrow> string \<Rightarrow> string list" where
  "split_on c [] = [[]]"
| "split_on c (x # xs) =
     (if x = c then [] # split_on c xs
      else (case split_on c xs of
              [] \<Rightarrow> [[x]]
            | w # ws \<Rightarrow> (x # w) # ws))"

text \<open>\<open>sep.join(xs)\<close>.\<close>

fun join :: "string \<Rightarrow> string list \<Rightarrow> string" where
  "join sep [] = []"
| "join sep [x] = x"
| "join sep (x # y # ys) = x @ sep @ join sep (y # ys)"

text \<open>\<open>sub in s\<close> on strings: \<open>sub\<close> occurs in \<open>s\<close> as a contiguous substring.\<close>

fun contains :: "string \<Rightarrow> string \<Rightarrow> bool" where
  "contains [] sub = (sub = [])"
| "contains (c # cs) sub = (startswith (c # cs) sub \<or> contains cs sub)"

text \<open>\<open>str(n)\<close> for a non-negative integer.\<close>

fun str_nat :: "nat \<Rightarrow> string" where
  "str_nat n =
     (if n < 10 then [''0123456789'' ! n]
      else str_nat (n div 10) @ [''0123456789'' ! (n mod 10)])"

declare str_nat.simps [simp del]

text \<open>
  \<open>int(s)\<close> on a string of ASCII decimal digits, the only strings the version pattern can
  hand to it. CPython refuses a string of more digits than its limit for the conversion
  between \<open>int\<close> and \<open>str\<close>, which is 4300 unless the interpreter is told otherwise (the
  source does not change it), and counts every digit, leading zeros too. Anything that
  is not a digit string is reported as the \<open>ValueError\<close> that \<open>int\<close> raises on a string
  that is not a number, with the string between quotes as \<open>repr\<close> prints a string that
  needs no escape; \<open>Line.__init__\<close> never reaches this branch.
\<close>

definition is_digit :: "char \<Rightarrow> bool" where
  "is_digit c = (CHR ''0'' \<le> c \<and> c \<le> CHR ''9'')"

definition digit_val :: "char \<Rightarrow> nat" where
  "digit_val c = of_char c - 48"

definition int_max_str_digits :: nat where
  "int_max_str_digits = 4300"

definition int_limit_message :: "string \<Rightarrow> string" where
  "int_limit_message s =
     ''Exceeds the limit ('' @ str_nat int_max_str_digits @
     '' digits) for integer string conversion: value has '' @ str_nat (length s) @
     '' digits; use sys.set_int_max_str_digits() to increase the limit''"

definition py_int :: "string \<Rightarrow> error + nat" where
  "py_int s =
     (if s \<noteq> [] \<and> list_all is_digit s
      then (if int_max_str_digits < length s
            then Inl (ValueError (int_limit_message s))
            else Inr (foldl (\<lambda>acc c. 10 * acc + digit_val c) 0 s))
      else Inl (ValueError (''invalid literal for int() with base 10: '' @
                            [CHR 0x27] @ s @ [CHR 0x27])))"

text \<open>\<open>str(t)\<close> for a tuple of non-negative integers.\<close>

definition str_tuple :: "nat list \<Rightarrow> string" where
  "str_tuple ns =
     ''('' @ join '', '' (map str_nat ns) @ (if length ns = 1 then '','' else []) @ '')''"

definition str_bool :: "bool \<Rightarrow> string" where
  "str_bool b = (if b then ''True'' else ''False'')"


section \<open>Regular expressions with backtracking\<close>

text \<open>
  The constructs that the three patterns of the source use: a literal, a character class
  given by its ranges, concatenation, the greedy quantifiers \<open>?\<close>, \<open>*\<close> and \<open>+\<close>, and a named
  group. Unnamed groups of the source only bracket (nothing reads what they capture) and
  are not represented.
\<close>

datatype regex =
    Lit string
  | Cls "(char \<times> char) list"
  | Seq regex regex
  | Opt regex
  | Star regex
  | Plus regex
  | Grp string regex

fun seqs :: "regex list \<Rightarrow> regex" where
  "seqs [] = Lit []"
| "seqs [r] = r"
| "seqs (r # rs) = Seq r (seqs rs)"

definition in_class :: "char \<Rightarrow> (char \<times> char) list \<Rightarrow> bool" where
  "in_class c rs = list_ex (\<lambda>(lo, hi). lo \<le> c \<and> c \<le> hi) rs"

text \<open>
  A matcher state is the input still to be read and the groups captured so far (most
  recent first). \<open>rmatch r st\<close> lists every state in which a match of \<open>r\<close> begun at \<open>st\<close>
  can end, in the order in which a backtracking engine tries them: a greedy quantifier
  tries one more repetition before it tries to stop. \<open>re.match\<close> returns the first.
\<close>

type_synonym mstate = "string \<times> (string \<times> string) list"

fun star_iter :: "(mstate \<Rightarrow> mstate list) \<Rightarrow> nat \<Rightarrow> mstate \<Rightarrow> mstate list" where
  "star_iter f 0 st = [st]"
| "star_iter f (Suc k) st =
     concat (map (star_iter f k)
               (filter (\<lambda>st'. length (fst st') < length (fst st)) (f st))) @ [st]"

primrec rmatch :: "regex \<Rightarrow> mstate \<Rightarrow> mstate list" where
  "rmatch (Lit l) = (\<lambda>(s, c). if startswith s l then [(drop (length l) s, c)] else [])"
| "rmatch (Cls rs) = (\<lambda>(s, c). case s of [] \<Rightarrow> []
                               | x # xs \<Rightarrow> if in_class x rs then [(xs, c)] else [])"
| "rmatch (Seq a b) = (\<lambda>st. concat (map (rmatch b) (rmatch a st)))"
| "rmatch (Opt a) = (\<lambda>st. rmatch a st @ [st])"
| "rmatch (Star a) = (\<lambda>st. star_iter (rmatch a) (length (fst st)) st)"
| "rmatch (Plus a) =
     (\<lambda>st. concat (map (\<lambda>st'. star_iter (rmatch a) (length (fst st')) st') (rmatch a st)))"
| "rmatch (Grp n a) =
     (\<lambda>(s, c). map (\<lambda>(s', c'). (s', (n, take (length s - length s') s) # c'))
                  (rmatch a (s, c)))"

text \<open>\<open>pattern.match(text)\<close>: the groups of the first match anchored at the start, if any.\<close>

definition re_match :: "regex \<Rightarrow> string \<Rightarrow> mstate option" where
  "re_match r text = (case rmatch r (text, []) of [] \<Rightarrow> None | st # _ \<Rightarrow> Some st)"

text \<open>
  \<open>pattern.findall(text)\<close> for a pattern with the single group \<open>param\<close>: scan from the left,
  collect the group of each match and go on behind it. A match that consumed nothing would
  move on by one character.
\<close>

function findall :: "regex \<Rightarrow> string \<Rightarrow> string list" where
  "findall r s =
     (case re_match r s of
        None \<Rightarrow> (case s of [] \<Rightarrow> [] | _ # cs \<Rightarrow> findall r cs)
      | Some (s', c) \<Rightarrow>
          (case map_of c ''param'' of None \<Rightarrow> [] | Some g \<Rightarrow> [g]) @
          (if length s' < length s then findall r s'
           else (case s of [] \<Rightarrow> [] | _ # cs \<Rightarrow> findall r cs)))"
  by pat_completeness auto
termination
  by (relation "measure (\<lambda>(r, s). length s)") auto

declare findall.simps [simp del]


section \<open>The class Line\<close>

definition sp :: regex where "sp = Cls [(CHR '' '', CHR '' '')]"

definition ident_start :: regex where
  "ident_start = Cls [(CHR ''a'', CHR ''z''), (CHR ''A'', CHR ''Z''), (CHR ''_'', CHR ''_'')]"

definition ident_char :: regex where
  "ident_char = Cls [(CHR ''a'', CHR ''z''), (CHR ''A'', CHR ''Z''), (CHR ''0'', CHR ''9''),
                     (CHR ''_'', CHR ''_'')]"

definition digit :: regex where "digit = Cls [(CHR ''0'', CHR ''9'')]"

definition version_re :: regex where
  "version_re = seqs [Plus digit, Lit ''.'', Plus digit, Lit ''.'', Plus digit]"

definition type_re :: regex where
  "type_re = seqs [Opt (Seq (Lit ''unsigned'') (Plus sp)), Plus ident_start, Star ident_char,
                   Star (Lit ''*'')]"

definition sig_chars :: regex where
  "sig_chars = Cls [(CHR ''a'', CHR ''z''), (CHR ''A'', CHR ''Z''), (CHR ''0'', CHR ''9''),
                    (CHR ''_'', CHR ''_''), (CHR '','', CHR '',''), (CHR ''*'', CHR ''*''),
                    (CHR '' '', CHR '' '')]"

definition PATTERN :: regex where
  "PATTERN = seqs
     [Opt (Grp ''mpi'' (Seq (Lit ''MPI'') (Plus sp))),
      Opt (Grp ''error'' (Seq (Lit ''ERROR'') (Plus sp))),
      Opt (Grp ''min_version'' version_re),
      Opt (Seq (Lit ''-'') (Grp ''max_version'' version_re)),
      Opt (Plus sp),
      Grp ''code'' type_re, Plus sp,
      Grp ''fname'' (Seq (Plus ident_start) (Star ident_char)), Star sp,
      Lit ''('', Grp ''sig'' (Star sig_chars), Lit '')'']"

definition SIG_PATTERN :: regex where
  "SIG_PATTERN = seqs
     [Opt (Seq (Lit ''unsigned'') (Plus sp)),
      Seq (Plus ident_start) (Seq (Star ident_char) (Star (Lit ''*''))),
      Plus sp, Star (Cls [(CHR '' '', CHR '' ''), (CHR ''*'', CHR ''*'')]),
      Grp ''param'' (Seq (Plus ident_start) (Star ident_char))]"

record Line =
  mpi :: bool
  error :: bool
  min_version :: "nat list option"
  max_version :: "nat list option"
  code :: string
  fname :: string
  sig :: string
  args :: string

text \<open>\<open>tuple(int(x) for x in v.split('.'))\<close>, failing where the first \<open>int\<close> fails.\<close>

fun ints :: "string list \<Rightarrow> error + nat list" where
  "ints [] = Inr []"
| "ints (x # xs) =
     (case py_int x of
        Inl e \<Rightarrow> Inl e
      | Inr n \<Rightarrow> (case ints xs of Inl e \<Rightarrow> Inl e | Inr ns \<Rightarrow> Inr (n # ns)))"

definition version_tuple :: "string option \<Rightarrow> error + nat list option" where
  "version_tuple v =
     (case v of
        None \<Rightarrow> Inr None
      | Some t \<Rightarrow> (case ints (split_on (CHR ''.'') t) of Inl e \<Rightarrow> Inl e | Inr ns \<Rightarrow> Inr (Some ns)))"

text \<open>
  \<open>findall\<close> returns a list, so the test \<open>self.args is None\<close> of the source is false for
  every value it is applied to.
\<close>

definition is_None_list :: "string list \<Rightarrow> bool" where
  "is_None_list xs = False"

text \<open>
  \<open>Line.__init__\<close>. A group that took no part in the match is \<open>None\<close> in \<open>groupdict()\<close>;
  for \<open>sig\<close> the call \<open>self.sig.replace\<close> would then raise \<open>AttributeError\<close>, and the model
  reports the same for \<open>code\<close> and \<open>fname\<close>, whose first use as a string comes later.
\<close>

definition Line_init :: "string \<Rightarrow> error + Line" where
  "Line_init text =
     (case re_match PATTERN text of
        None \<Rightarrow> Inl (ValueError (''Invalid line encountered: '' @ text))
      | Some (rest, parts) \<Rightarrow>
          (case version_tuple (map_of parts ''min_version'') of
             Inl e \<Rightarrow> Inl e
           | Inr minv \<Rightarrow>
          (case version_tuple (map_of parts ''max_version'') of
             Inl e \<Rightarrow> Inl e
           | Inr maxv \<Rightarrow>
          (case (map_of parts ''code'', map_of parts ''fname'', map_of parts ''sig'') of
             (Some c, Some f, Some g) \<Rightarrow>
               (let sig_const_stripped = replace ''const'' [] (- 1) g;
                    found = findall SIG_PATTERN sig_const_stripped
                in if is_None_list found
                   then Inl (ValueError (''Invalid function signature: '' @ g))
                   else Inr \<lparr> mpi = (map_of parts ''mpi'' \<noteq> None),
                              error = (map_of parts ''error'' \<noteq> None),
                              min_version = minv, max_version = maxv,
                              code = c, fname = f, sig = g,
                              args = join '', '' found \<rparr>)
           | _ \<Rightarrow> Inl (AttributeError ''NoneType'')))))"


section \<open>The class LineProcessor\<close>

definition raw_preamble :: string where
  "raw_preamble =
     ''# cython: language_level=3\<newline>'' @
     ''#\<newline>'' @
     ''# Warning: this file is auto-generated from api_gen.py. DO NOT EDIT!\<newline>'' @
     ''#\<newline>'' @
     ''\<newline>'' @
     ''include \"config.pxi\"\<newline>'' @
     ''from .api_types_hdf5 cimport *\<newline>'' @
     ''from .api_types_ext cimport *\<newline>'' @
     ''\<newline>''"

definition def_preamble :: string where
  "def_preamble =
     ''# cython: language_level=3\<newline>'' @
     ''#\<newline>'' @
     ''# Warning: this file is auto-generated from api_gen.py. DO NOT EDIT!\<newline>'' @
     ''#\<newline>'' @
     ''\<newline>'' @
     ''include \"config.pxi\"\<newline>'' @
     ''\<newline>'' @
     ''from .api_types_hdf5 cimport *\<newline>'' @
     ''from .api_types_ext cimport *\<newline>'' @
     ''\<newline>''"

definition imp_preamble :: string where
  "imp_preamble =
     ''# cython: language_level=3\<newline>'' @
     ''#\<newline>'' @
     ''# Warning: this file is auto-generated from api_gen.py. DO NOT EDIT!\<newline>'' @
     ''#\<newline>'' @
     ''\<newline>'' @
     ''include \"config.pxi\"\<newline>'' @
     ''from .api_types_ext cimport *\<newline>'' @
     ''from .api_types_hdf5 cimport *\<newline>'' @
     ''\<newline>'' @
     ''from . cimport _hdf5\<newline>'' @
     ''\<newline>'' @
     ''from ._errors cimport set_exception\<newline>''"

text \<open>The three output files, each as the text written to it so far.\<close>

record streams =
  raw_defs :: string
  cython_defs :: string
  cython_imp :: string

text \<open>
  \<open>wrapif\<close>, the local function of \<open>add_cython_if\<close>: every newline of the block but the last
  is followed by four more spaces, and the block is put under an \<open>IF\<close> line.
\<close>

definition wrapif :: "string \<Rightarrow> string \<Rightarrow> string" where
  "wrapif condition block =
     ''IF '' @ condition @ '':\<newline>    '' @
     replace ''\<newline>'' ''\<newline>    '' (int (count_char CHR ''\<newline>'' block) - 1) block"

definition add_cython_if :: "Line \<Rightarrow> string \<Rightarrow> string" where
  "add_cython_if l block0 =
     (let block = (if mpi l then wrapif ''MPI'' block0 else block0)
      in case (min_version l, max_version l) of
           (Some mn, Some mx) \<Rightarrow>
             wrapif (''HDF5_VERSION >= '' @ str_tuple mn @
                     '' and HDF5_VERSION <= '' @ str_tuple mx) block
         | (Some mn, None) \<Rightarrow> wrapif (''HDF5_VERSION >= '' @ str_tuple mn) block
         | (None, Some mx) \<Rightarrow> wrapif (''HDF5_VERSION <= '' @ str_tuple mx) block
         | (None, None) \<Rightarrow> block)"

definition raw_sig_text :: "Line \<Rightarrow> string" where
  "raw_sig_text l =
     (let raw_sig = code l @ '' '' @ fname l @ ''('' @ sig l @ '') except *\<newline>'';
          raw_sig = add_cython_if l raw_sig
      in join ''\<newline>'' (map (\<lambda>x. if strip x \<noteq> [] then ''  '' @ x else x)
                               (split_on CHR ''\<newline>'' raw_sig)))"

definition write_raw_sig :: "Line \<Rightarrow> streams \<Rightarrow> streams" where
  "write_raw_sig l st = st\<lparr>raw_defs := raw_defs st @ raw_sig_text l\<rparr>"

definition cython_sig_text :: "Line \<Rightarrow> string" where
  "cython_sig_text l =
     add_cython_if l
       (''cdef '' @ code l @ '' '' @ fname l @ ''('' @ sig l @ '') except *\<newline>'')"

definition write_cython_sig :: "Line \<Rightarrow> streams \<Rightarrow> streams" where
  "write_cython_sig l st = st\<lparr>cython_defs := cython_defs st @ cython_sig_text l\<rparr>"

text \<open>The pattern of \<open>re.match(r'H5[A-Z]+_[a-zA-Z_]+_t', self.line.code)\<close>.\<close>

definition STATUS_PATTERN :: regex where
  "STATUS_PATTERN =
     seqs [Lit ''H5'', Plus (Cls [(CHR ''A'', CHR ''Z'')]), Lit ''_'', Plus ident_start,
           Lit ''_t'']"

text \<open>
  The test and the return value of the error report, the first part of
  \<open>write_cython_imp\<close>: the pair \<open>(condition, retval)\<close>, the latter as the template prints it.
\<close>

definition ret_class :: "string \<Rightarrow> error + string \<times> string" where
  "ret_class c =
     (if contains c ''*'' \<or> c \<in> set [''H5T_conv_t''] then Inr (''==NULL'', ''NULL'')
      else if c \<in> set [''int'', ''herr_t'', ''htri_t'', ''hid_t'', ''hssize_t'', ''ssize_t'']
              \<or> re_match STATUS_PATTERN c \<noteq> None then Inr (''<0'', ''-1'')
      else if c \<in> set [''unsigned int'', ''haddr_t'', ''hsize_t'', ''size_t'']
      then Inr (''==0'', ''0'')
      else Inl (ValueError (''Return code <<'' @ c @ ''>> unknown'')))"

text \<open>The template of the wrapper implementation, filled in.\<close>

definition imp_template :: "Line \<Rightarrow> string \<Rightarrow> string \<Rightarrow> string" where
  "imp_template l condition retval =
     ''cdef '' @ code l @ '' '' @ fname l @ ''('' @ sig l @ '') except *:\<newline>'' @
     ''    cdef '' @ code l @ '' r\<newline>'' @
     ''    _hdf5.H5Eset_auto(NULL, NULL)\<newline>'' @
     ''    r = _hdf5.'' @ fname l @ ''('' @ args l @ '')\<newline>'' @
     ''    if r'' @ condition @ '':\<newline>'' @
     ''        if set_exception():\<newline>'' @
     ''            return <'' @ code l @ ''>'' @ retval @ ''\<newline>'' @
     ''        elif '' @ str_bool (error l) @ '':\<newline>'' @
     ''            raise RuntimeError(\"Unspecified error in '' @ fname l @
       '' (return value '' @ condition @ '')\")\<newline>'' @
     ''    return r\<newline>'' @
     ''\<newline>''"

definition cython_imp_text :: "Line \<Rightarrow> error + string" where
  "cython_imp_text l =
     (case ret_class (code l) of
        Inl e \<Rightarrow> Inl e
      | Inr (condition, retval) \<Rightarrow> Inr (add_cython_if l (imp_template l condition retval)))"

definition write_cython_imp :: "Line \<Rightarrow> streams \<Rightarrow> error + streams" where
  "write_cython_imp l st =
     (case cython_imp_text l of
        Inl e \<Rightarrow> Inl e
      | Inr imp \<Rightarrow> Inr (st\<lparr>cython_imp := cython_imp st @ imp\<rparr>))"

text \<open>
  The body of the loop of \<open>LineProcessor.run\<close> for one line \<open>text\<close> of the input file: the
  streams after it, and the exception that ended the run, if one was raised. What was
  written before the exception stays written.
\<close>

definition is_header_line :: "string \<Rightarrow> bool" where
  "is_header_line text =
     (\<not> startswith text '' '' \<and> \<not> startswith text ''#'' \<and> length (strip text) > 0)"

definition extern_fragment :: "string \<Rightarrow> string" where
  "extern_fragment inc = ''cdef extern from \"'' @ inc @ ''.h\":\<newline>''"

definition process_line :: "streams \<Rightarrow> string \<Rightarrow> streams \<times> error option" where
  "process_line st text0 =
     (if is_header_line text0
      then (case split_on CHR '':'' text0 of
              [] \<Rightarrow> (st, Some (IndexError ''list index out of range''))
            | inc # _ \<Rightarrow> (st\<lparr>raw_defs := raw_defs st @ extern_fragment inc\<rparr>, None))
      else
        (let text = strip text0
         in if length text = 0 \<or> hd text = CHR ''#'' then (st, None)
            else (case Line_init text of
                    Inl e \<Rightarrow> (st, Some e)
                  | Inr l \<Rightarrow>
                      (let st1 = write_raw_sig l st;
                           st2 = write_cython_sig l st1
                       in case write_cython_imp l st2 of
                            Inl e \<Rightarrow> (st2, Some e)
                          | Inr st3 \<Rightarrow> (st3, None)))))"

fun run_lines :: "streams \<Rightarrow> string list \<Rightarrow> streams \<times> error option" where
  "run_lines st [] = (st, None)"
| "run_lines st (text # rest) =
     (case process_line st text of
        (st', Some e) \<Rightarrow> (st', Some e)
      | (st', None) \<Rightarrow> run_lines st' rest)"

text \<open>
  \<open>LineProcessor.run\<close> on the lines that iterating over the input file yields (each with
  its line end, but perhaps the last).
\<close>

definition run :: "string list \<Rightarrow> streams \<times> error option" where
  "run lines =
     run_lines \<lparr>raw_defs = raw_preamble, cython_defs = def_preamble,
                cython_imp = imp_preamble\<rparr> lines"


section \<open>Notions used to state the properties\<close>


text \<open>
  The descriptor grammar, read declaratively: the set of strings that a pattern matches
  from its first to its last character.
\<close>

inductive_set star_lang :: "string set \<Rightarrow> string set" for L :: "string set" where
  star_nil: "[] \<in> star_lang L"
| star_app: "u \<in> L \<Longrightarrow> v \<in> star_lang L \<Longrightarrow> u @ v \<in> star_lang L"

primrec lang :: "regex \<Rightarrow> string set" where
  "lang (Lit l) = {l}"
| "lang (Cls rs) = {[x] | x. in_class x rs}"
| "lang (Seq a b) = {u @ v | u v. u \<in> lang a \<and> v \<in> lang b}"
| "lang (Opt a) = insert [] (lang a)"
| "lang (Star a) = star_lang (lang a)"
| "lang (Plus a) = {u @ v | u v. u \<in> lang a \<and> v \<in> star_lang (lang a)}"
| "lang (Grp n a) = lang a"

text \<open>A line matches a pattern at its start when one of its prefixes is in the language.\<close>

definition matches_prefix :: "regex \<Rightarrow> string \<Rightarrow> bool" where
  "matches_prefix r text = (\<exists>u v. text = u @ v \<and> u \<in> lang r)"

text \<open>
  The named groups of a pattern with their bodies, and the groups that every match of
  the pattern sets.
\<close>

primrec grps :: "regex \<Rightarrow> (string \<times> regex) list" where
  "grps (Lit l) = []"
| "grps (Cls rs) = []"
| "grps (Seq a b) = grps a @ grps b"
| "grps (Opt a) = grps a"
| "grps (Star a) = grps a"
| "grps (Plus a) = grps a"
| "grps (Grp n a) = (n, a) # grps a"

primrec mand :: "regex \<Rightarrow> string list" where
  "mand (Lit l) = []"
| "mand (Cls rs) = []"
| "mand (Seq a b) = mand a @ mand b"
| "mand (Opt a) = []"
| "mand (Star a) = []"
| "mand (Plus a) = mand a"
| "mand (Grp n a) = n # mand a"

text \<open>
  Two relations between the matcher state before and after a match: what the match added
  to the captured groups comes from the groups of the pattern, each value in the language
  of its group; and no captured name is lost.
\<close>

definition caps_ext :: "(string \<times> regex) list \<Rightarrow> mstate \<Rightarrow> mstate \<Rightarrow> bool" where
  "caps_ext G st st' =
     (\<exists>new. snd st' = new @ snd st \<and>
            (\<forall>p \<in> set new. \<exists>a. (fst p, a) \<in> set G \<and> snd p \<in> lang a))"

definition names_kept :: "mstate \<Rightarrow> mstate \<Rightarrow> bool" where
  "names_kept st st' = (fst ` set (snd st) \<subseteq> fst ` set (snd st'))"

text \<open>
  The strings that \<open>Line.__init__\<close> hands to \<open>int\<close>: the parts between the dots of the
  minimum and of the maximum version that the match of \<open>PATTERN\<close> captured, in this order.
\<close>

definition version_components :: "string \<Rightarrow> string list" where
  "version_components text =
     (case re_match PATTERN text of
        None \<Rightarrow> []
      | Some (rest, parts) \<Rightarrow>
          concat (map (\<lambda>n. case map_of parts n of
                              None \<Rightarrow> []
                            | Some v \<Rightarrow> split_on CHR ''.'' v)
                    [''min_version'', ''max_version'']))"

text \<open>The part of \<open>PATTERN\<close> behind the minimum version.\<close>

definition PATTERN_rest :: regex where
  "PATTERN_rest = seqs
     [Opt (Seq (Lit ''-'') (Grp ''max_version'' version_re)),
      Opt (Plus sp),
      Grp ''code'' type_re, Plus sp,
      Grp ''fname'' (Seq (Plus ident_start) (Star ident_char)), Star sp,
      Lit ''('', Grp ''sig'' (Star sig_chars), Lit '')'']"

text \<open>
  The pattern of the signed-status rule as the specification words it: two or more
  uppercase letters, an underscore, a lowercase identifier, and \<open>_t\<close>.
\<close>

definition SPEC_STATUS_PATTERN :: regex where
  "SPEC_STATUS_PATTERN =
     seqs [Cls [(CHR ''A'', CHR ''Z'')], Plus (Cls [(CHR ''A'', CHR ''Z'')]), Lit ''_'',
           Cls [(CHR ''a'', CHR ''z''), (CHR ''_'', CHR ''_'')],
           Star (Cls [(CHR ''a'', CHR ''z''), (CHR ''0'', CHR ''9''), (CHR ''_'', CHR ''_'')]),
           Lit ''_t'']"

text \<open>
  The wrapper that the template of \<open>write_cython_imp\<close> emits, read as a program. The
  statements of the template are put into a small abstract syntax (\<open>wrapper\<close>);
  \<open>render_cdef\<close> prints a function of that syntax in the layout of the template, so that
  the emitted text can be compared with the program; and \<open>exec_block\<close> runs the statements
  against the two things that are only known when the wrapper runs: whether the test on
  the native result holds, and whether \<open>set_exception()\<close> reports a translated error.
\<close>

datatype cy_expr =
    Name string
  | CallE string string
  | Compare string string
  | Cast string string

datatype cy_stmt =
    CDefVar string string
  | ExprStmt cy_expr
  | Assign string cy_expr
  | If cy_expr "cy_stmt list"
  | IfElif cy_expr "cy_stmt list" cy_expr "cy_stmt list"
  | Return cy_expr
  | Raise cy_expr





datatype event =
    Calls string string
  | Tests string string
  | Returns cy_expr
  | Raises cy_expr

record run_env =
  native_failed :: bool
  translator_raised :: bool

text \<open>What evaluating an expression does, and its truth value where it is a condition.\<close>

fun events_of :: "cy_expr \<Rightarrow> event list" where
  "events_of (Name n) = []"
| "events_of (CallE f a) = [Calls f a]"
| "events_of (Compare v op) = [Tests v op]"
| "events_of (Cast t e) = []"

fun truth :: "run_env \<Rightarrow> cy_expr \<Rightarrow> bool" where
  "truth env (Name n) = (n = ''True'')"
| "truth env (CallE f a) = translator_raised env"
| "truth env (Compare v op) = native_failed env"
| "truth env (Cast t e) = True"

text \<open>
  Running statements: the events in the order in which they happen, and whether a
  \<open>return\<close> or a \<open>raise\<close> has ended the function.
\<close>

fun exec :: "run_env \<Rightarrow> cy_stmt \<Rightarrow> event list \<times> bool"
  and exec_block :: "run_env \<Rightarrow> cy_stmt list \<Rightarrow> event list \<times> bool" where
  "exec env (CDefVar t v) = ([], False)"
| "exec env (ExprStmt e) = (events_of e, False)"
| "exec env (Assign v e) = (events_of e, False)"
| "exec env (If c b) =
     (if truth env c
      then (case exec_block env b of (ev, d) \<Rightarrow> (events_of c @ ev, d))
      else (events_of c, False))"
| "exec env (IfElif c b c2 b2) =
     (if truth env c
      then (case exec_block env b of (ev, d) \<Rightarrow> (events_of c @ ev, d))
      else if truth env c2
      then (case exec_block env b2 of (ev, d) \<Rightarrow> (events_of c @ events_of c2 @ ev, d))
      else (events_of c @ events_of c2, False))"
| "exec env (Return e) = ([Returns e], True)"
| "exec env (Raise e) = ([Raises e], True)"
| "exec_block env [] = ([], False)"
| "exec_block env (s # ss) =
     (case exec env s of
        (ev, d) \<Rightarrow>
          if d then (ev, True)
          else (case exec_block env ss of (ev2, d2) \<Rightarrow> (ev @ ev2, d2)))"

section \<open>Conditional-compilation guards\<close>








section \<open>The two lines of the specification's scenarios\<close>

text \<open>
  C7. The line \<open>MPI ERROR 1.8.12 int foo(char* a, size_t b)\<close> parses to the descriptor with
  both flags set, minimum version (1, 8, 12), no maximum version, return type \<open>int\<close>,
  name \<open>foo\<close>, and the parameter names \<open>a\<close> and \<open>b\<close>, found in this order and stored
  joined by a comma and a space.
\<close>

theorem parse_example_line:
  "Line_init ''MPI ERROR 1.8.12 int foo(char* a, size_t b)'' =
     Inr \<lparr> mpi = True, error = True, min_version = Some [1, 8, 12], max_version = None,
           code = ''int'', fname = ''foo'', sig = ''char* a, size_t b'', args = ''a, b'' \<rparr>
   \<and> findall SIG_PATTERN (replace ''const'' [] (- 1) ''char* a, size_t b'') = [''a'', ''b'']"
  by code_simp



section \<open>Header directives\<close>

lemma split_on_first: "\<exists>ws. split_on c s = takeWhile (\<lambda>x. x \<noteq> c) s # ws"
  by (induction s) (auto split: list.splits)

lemma process_header_line:
  assumes "is_header_line text"
  shows "process_line st text =
           (st\<lparr>raw_defs := raw_defs st @
                 extern_fragment (takeWhile (\<lambda>x. x \<noteq> CHR '':'') text)\<rparr>, None)"
proof -
  obtain ws where "split_on CHR '':'' text = takeWhile (\<lambda>x. x \<noteq> CHR '':'') text # ws"
    using split_on_first by blast
  with assms show ?thesis by (simp add: process_line_def)
qed

text \<open>
  C10. For a line classified as a header directive, the name put into the
  \<open>cdef extern from\<close> fragment is the text of the line up to its first colon, taken from the
  line as read, before anything is stripped; a directive line without a colon therefore
  carries its line end into the name, in front of \<open>.h\<close>.
\<close>

theorem header_name_before_colon:
  "(is_header_line text \<longrightarrow>
      process_line st text =
        (st\<lparr>raw_defs := raw_defs st @ ''cdef extern from \"'' @
              takeWhile (\<lambda>x. x \<noteq> CHR '':'') text @ ''.h\":\<newline>''\<rparr>, None))
   \<and> (is_header_line (body @ ''\<newline>'') \<and> CHR '':'' \<notin> set body \<longrightarrow>
      process_line st (body @ ''\<newline>'') =
        (st\<lparr>raw_defs := raw_defs st @ ''cdef extern from \"'' @ body @
              ''\<newline>.h\":\<newline>''\<rparr>, None))"
proof -
  have "takeWhile (\<lambda>x. x \<noteq> CHR '':'') (body @ ''\<newline>'') = body @ ''\<newline>''"
    if "CHR '':'' \<notin> set body"
    using that by auto
  then show ?thesis
    by (auto simp: process_header_line extern_fragment_def)
qed

lemma wrapif_nonempty: "wrapif g b \<noteq> []"
  by (simp add: wrapif_def)

lemma add_cython_if_nonempty: "b \<noteq> [] \<Longrightarrow> add_cython_if l b \<noteq> []"
  by (auto simp: add_cython_if_def wrapif_nonempty Let_def split: option.splits)

lemma cython_sig_text_nonempty: "cython_sig_text l \<noteq> []"
  unfolding cython_sig_text_def by (rule add_cython_if_nonempty) simp

lemma process_other_line:
  assumes "\<not> is_header_line text"
  shows "process_line st text \<noteq> (st\<lparr>raw_defs := raw_defs st @ extern_fragment inc\<rparr>, None)"
proof -
  have frag: "extern_fragment inc \<noteq> []" by (simp add: extern_fragment_def)
  have skip: "(st, None :: error option) \<noteq> (st\<lparr>raw_defs := raw_defs st @ extern_fragment inc\<rparr>, None)"
  proof
    assume "(st, None :: error option) = (st\<lparr>raw_defs := raw_defs st @ extern_fragment inc\<rparr>, None)"
    then have "raw_defs st = raw_defs (st\<lparr>raw_defs := raw_defs st @ extern_fragment inc\<rparr>)" by simp
    with frag show False by simp
  qed
  have fn: "st3 \<noteq> st\<lparr>raw_defs := raw_defs st @ extern_fragment inc\<rparr>"
    if "write_cython_imp l (write_cython_sig l (write_raw_sig l st)) = Inr st3" for l st3
  proof
    assume e: "st3 = st\<lparr>raw_defs := raw_defs st @ extern_fragment inc\<rparr>"
    from that have "cython_defs st3 = cython_defs st @ cython_sig_text l"
      by (auto simp: write_cython_imp_def write_cython_sig_def write_raw_sig_def split: sum.splits)
    with e show False using cython_sig_text_nonempty by simp
  qed
  show ?thesis
    using assms skip fn
    by (auto simp: process_line_def Let_def split: sum.splits)
qed

text \<open>
  C9, as the code has it. A line is handled as a header directive (an \<open>extern from\<close>
  fragment is appended to the raw-declaration stream, the other two streams and the run
  go on unchanged) exactly when it does not start with a space character, does not start
  with \<open>#\<close>, and is not blank after stripping.
\<close>

theorem header_line_iff:
  "(\<exists>inc. process_line st text = (st\<lparr>raw_defs := raw_defs st @ ''cdef extern from \"'' @ inc @ ''.h\":\<newline>''\<rparr>, None))
   \<longleftrightarrow> (\<not> startswith text '' '' \<and> \<not> startswith text ''#'' \<and> strip text \<noteq> [])"
proof -
  have "is_header_line text \<longleftrightarrow> (\<not> startswith text '' '' \<and> \<not> startswith text ''#'' \<and> strip text \<noteq> [])"
    by (simp add: is_header_line_def)
  moreover have "(\<exists>inc. process_line st text = (st\<lparr>raw_defs := raw_defs st @ extern_fragment inc\<rparr>, None)) \<longleftrightarrow> is_header_line text"
    using process_header_line process_other_line by blast
  ultimately show ?thesis by (simp add: extern_fragment_def)
qed


theorem header_name_before_colon_witness:
  "is_header_line ''hdf5: core\<newline>''
   \<and> process_line \<lparr>raw_defs = ''x'', cython_defs = ''y'', cython_imp = ''z''\<rparr> ''hdf5: core\<newline>'' =
       (\<lparr>raw_defs = ''xcdef extern from \"hdf5.h\":\<newline>'', cython_defs = ''y'', cython_imp = ''z''\<rparr>, None)
   \<and> is_header_line (''hdf5_hl'' @ ''\<newline>'') \<and> CHR '':'' \<notin> set ''hdf5_hl''
   \<and> process_line \<lparr>raw_defs = ''x'', cython_defs = ''y'', cython_imp = ''z''\<rparr> (''hdf5_hl'' @ ''\<newline>'') =
       (\<lparr>raw_defs = ''xcdef extern from \"hdf5_hl\<newline>.h\":\<newline>'', cython_defs = ''y'', cython_imp = ''z''\<rparr>, None)"
proof -
  let ?st = "\<lparr>raw_defs = ''x'', cython_defs = ''y'', cython_imp = ''z''\<rparr>"
  have h1: "is_header_line ''hdf5: core\<newline>''" by code_simp
  have h2: "is_header_line (''hdf5_hl'' @ ''\<newline>'')" by code_simp
  have h3: "CHR '':'' \<notin> set ''hdf5_hl''" by simp
  from header_name_before_colon [of "''hdf5: core\<newline>''" ?st "''hdf5_hl''"] h1 h2 h3
  show ?thesis by simp
qed

text \<open>
  C9, as the specification words it, fails on a line that starts with a tab: it starts
  with whitespace, and is handled as a header directive all the same.
\<close>

theorem header_line_tab_counterexample:
  "isspace (hd (CHR 0x09 # ''foo\<newline>''))
   \<and> process_line \<lparr>raw_defs = [], cython_defs = [], cython_imp = []\<rparr> (CHR 0x09 # ''foo\<newline>'') =
       (\<lparr>raw_defs = ''cdef extern from \"'' @ CHR 0x09 # ''foo\<newline>.h\":\<newline>'',
          cython_defs = [], cython_imp = []\<rparr>, None)"
  by code_simp


section \<open>The matcher and the language of a pattern\<close>

lemma startswith_iff: "startswith s p \<longleftrightarrow> (\<exists>t. s = p @ t)"
  unfolding startswith_def
  by (metis append_eq_conv_conj append_take_drop_id)

lemma star_lang_append:
  "u \<in> star_lang L \<Longrightarrow> v \<in> star_lang L \<Longrightarrow> u @ v \<in> star_lang L"
  by (induction rule: star_lang.induct) (auto intro: star_lang.intros simp del: append_assoc simp: append_assoc)

lemma star_iter_sound:
  assumes f: "\<And>st st'. st' \<in> set (f st) \<Longrightarrow> \<exists>u \<in> L. fst st = u @ fst st'"
  shows "st' \<in> set (star_iter f k st) \<Longrightarrow> \<exists>u \<in> star_lang L. fst st = u @ fst st'"
proof (induction k arbitrary: st)
  case 0
  then show ?case by (auto intro: star_nil)
next
  case (Suc k)
  from Suc.prems consider "st' = st"
    | m where "m \<in> set (f st)" "st' \<in> set (star_iter f k m)"
    by auto
  then show ?case
  proof cases
    case 1
    then show ?thesis by (auto intro: star_nil)
  next
    case 2
    from f [OF 2(1)] obtain u where u: "u \<in> L" "fst st = u @ fst m" by blast
    from Suc.IH [OF 2(2)] obtain v where v: "v \<in> star_lang L" "fst m = v @ fst st'" by blast
    from u v have "u @ v \<in> star_lang L" "fst st = (u @ v) @ fst st'"
      by (auto intro: star_app)
    then show ?thesis by blast
  qed
qed

lemma rmatch_sound:
  "st' \<in> set (rmatch r st) \<Longrightarrow> \<exists>u \<in> lang r. fst st = u @ fst st'"
proof (induction r arbitrary: st st')
  case (Lit l)
  then show ?case
    by (cases st) (auto simp: startswith_iff split: if_splits)
next
  case (Cls rs)
  then show ?case
    by (cases st) (auto split: list.splits if_splits)
next
  case (Seq a b)
  from Seq.prems obtain m where m: "m \<in> set (rmatch a st)" "st' \<in> set (rmatch b m)"
    by auto
  from Seq.IH(1) [OF m(1)] obtain u where u: "u \<in> lang a" "fst st = u @ fst m" by blast
  from Seq.IH(2) [OF m(2)] obtain v where v: "v \<in> lang b" "fst m = v @ fst st'" by blast
  from u v have "u @ v \<in> lang (Seq a b)" "fst st = (u @ v) @ fst st'" by auto
  then show ?case by blast
next
  case (Opt a)
  from Opt.prems consider "st' = st" | "st' \<in> set (rmatch a st)" by auto
  then show ?case
  proof cases
    case 1
    then show ?thesis by simp
  next
    case 2
    from Opt.IH [OF this] show ?thesis by auto
  qed
next
  case (Star a)
  from Star.prems have "st' \<in> set (star_iter (rmatch a) (length (fst st)) st)" by simp
  from star_iter_sound [of "rmatch a" "lang a", OF Star.IH this]
  show ?case by simp
next
  case (Plus a)
  from Plus.prems obtain m where m: "m \<in> set (rmatch a st)"
      "st' \<in> set (star_iter (rmatch a) (length (fst m)) m)"
    by auto
  from Plus.IH [OF m(1)] obtain u where u: "u \<in> lang a" "fst st = u @ fst m" by blast
  from star_iter_sound [of "rmatch a" "lang a", OF Plus.IH m(2)]
  obtain v where v: "v \<in> star_lang (lang a)" "fst m = v @ fst st'" by blast
  from u v have "u @ v \<in> lang (Plus a)" "fst st = (u @ v) @ fst st'" by auto
  then show ?case by blast
next
  case (Grp n a)
  obtain s c where st: "st = (s, c)" by (cases st)
  with Grp.prems obtain m where "m \<in> set (rmatch a (s, c))" "fst st' = fst m"
    by (auto split: prod.splits)
  with Grp.IH [of m "(s, c)"] st show ?case by auto
qed

lemma star_iter_complete:
  assumes f: "\<And>u s' c. u \<in> L \<Longrightarrow> \<exists>c'. (s', c') \<in> set (f (u @ s', c))"
  shows "w \<in> star_lang L \<Longrightarrow> length (w @ s') \<le> k \<Longrightarrow>
         \<exists>c'. (s', c') \<in> set (star_iter f k (w @ s', c))"
proof (induction arbitrary: k c rule: star_lang.induct)
  case star_nil
  then show ?case by (cases k) auto
next
  case (star_app u v)
  show ?case
  proof (cases "u = []")
    case True
    with star_app show ?thesis by simp
  next
    case False
    with star_app.prems have "length (v @ s') < k" by (cases u) auto
    then obtain k' where k: "k = Suc k'" "length (v @ s') \<le> k'"
      by (cases k) auto
    from f [OF star_app.hyps(1)] obtain c1 where c1: "(v @ s', c1) \<in> set (f (u @ v @ s', c))"
      by blast
    from star_app.IH [OF k(2)] obtain c' where c': "(s', c') \<in> set (star_iter f k' (v @ s', c1))"
      by blast
    from False have "length (fst (v @ s', c1)) < length (fst (u @ v @ s', c))" by simp
    with c1 c' have "(s', c') \<in> set (star_iter f (Suc k') (u @ v @ s', c))"
      by (simp del: star_iter.simps add: star_iter.simps(2)) force
    with k show ?thesis by auto
  qed
qed

lemma rmatch_complete:
  "u \<in> lang r \<Longrightarrow> \<exists>c'. (s', c') \<in> set (rmatch r (u @ s', c))"
proof (induction r arbitrary: u s' c)
  case (Lit l)
  then show ?case by (auto simp: startswith_def)
next
  case (Cls rs)
  then show ?case by auto
next
  case (Seq a b)
  from Seq.prems obtain x y where xy: "u = x @ y" "x \<in> lang a" "y \<in> lang b" by auto
  from Seq.IH(1) [OF xy(2)] obtain c1 where c1: "(y @ s', c1) \<in> set (rmatch a (x @ y @ s', c))"
    by blast
  from Seq.IH(2) [OF xy(3)] obtain c2 where c2: "(s', c2) \<in> set (rmatch b (y @ s', c1))"
    by blast
  from c1 c2 xy(1) show ?case by force
next
  case (Opt a)
  from Opt.prems consider "u = []" | "u \<in> lang a" by auto
  then show ?case
  proof cases
    case 1
    then show ?thesis by auto
  next
    case 2
    from Opt.IH [OF this, of s' c] show ?thesis by auto
  qed
next
  case (Star a)
  from Star.prems have "u \<in> star_lang (lang a)" by simp
  from star_iter_complete [of "lang a" "rmatch a", OF Star.IH this, of s' "length (u @ s')" c]
  show ?case by simp
next
  case (Plus a)
  from Plus.prems obtain x y where xy: "u = x @ y" "x \<in> lang a" "y \<in> star_lang (lang a)"
    by auto
  from Plus.IH [OF xy(2)] obtain c1 where c1: "(y @ s', c1) \<in> set (rmatch a (x @ y @ s', c))"
    by blast
  from star_iter_complete [of "lang a" "rmatch a", OF Plus.IH xy(3), of s' "length (y @ s')" c1]
  obtain c2 where c2: "(s', c2) \<in> set (star_iter (rmatch a) (length (y @ s')) (y @ s', c1))"
    by auto
  from c1 c2 xy(1) show ?case by force
next
  case (Grp n a)
  from Grp.prems have "u \<in> lang a" by simp
  from Grp.IH [OF this] obtain c1 where "(s', c1) \<in> set (rmatch a (u @ s', c))" by blast
  then show ?case by force
qed

lemma re_match_None_iff: "re_match r text = None \<longleftrightarrow> \<not> matches_prefix r text"
proof
  assume n: "re_match r text = None"
  show "\<not> matches_prefix r text"
  proof
    assume "matches_prefix r text"
    then obtain u v where "text = u @ v" "u \<in> lang r" by (auto simp: matches_prefix_def)
    with rmatch_complete [of u r v "[]"] have "rmatch r (text, []) \<noteq> []" by auto
    with n show False by (simp add: re_match_def split: list.splits)
  qed
next
  assume n: "\<not> matches_prefix r text"
  show "re_match r text = None"
  proof (cases "rmatch r (text, [])")
    case Nil
    then show ?thesis by (simp add: re_match_def)
  next
    case (Cons st' rest)
    then have "st' \<in> set (rmatch r (text, []))" by simp
    from rmatch_sound [OF this] n show ?thesis by (auto simp: matches_prefix_def)
  qed
qed

lemma lang_iff_rmatch: "text \<in> lang r \<longleftrightarrow> [] \<in> fst ` set (rmatch r (text, []))"
proof
  assume "text \<in> lang r"
  from rmatch_complete [OF this, of "[]" "[]"] show "[] \<in> fst ` set (rmatch r (text, []))"
    by force
next
  assume "[] \<in> fst ` set (rmatch r (text, []))"
  then obtain st' where "st' \<in> set (rmatch r (text, []))" "fst st' = []" by force
  with rmatch_sound [of st' r "(text, [])"] show "text \<in> lang r" by auto
qed

lemma star_iter_rel:
  assumes mem: "st' \<in> set (star_iter f k st)"
    and step: "\<And>st st'. st' \<in> set (f st) \<Longrightarrow> R st st'"
    and refl: "\<And>st. R st st"
    and trans: "\<And>x y z. R x y \<Longrightarrow> R y z \<Longrightarrow> R x z"
  shows "R st st'"
  using mem
proof (induction k arbitrary: st)
  case 0
  then show ?case by (simp add: refl)
next
  case (Suc k)
  from Suc.prems consider "st' = st"
    | m where "m \<in> set (f st)" "st' \<in> set (star_iter f k m)"
    by auto
  then show ?case
  proof cases
    case 1
    then show ?thesis by (simp add: refl)
  next
    case 2
    from step [OF 2(1)] Suc.IH [OF 2(2)] show ?thesis by (rule trans)
  qed
qed

lemma caps_ext_refl: "caps_ext G st st"
  by (simp add: caps_ext_def)

lemma caps_ext_trans:
  assumes "caps_ext G x y" and "caps_ext G y z"
  shows "caps_ext G x z"
proof -
  from assms(1) obtain n1 where n1: "snd y = n1 @ snd x"
      "\<forall>p \<in> set n1. \<exists>a. (fst p, a) \<in> set G \<and> snd p \<in> lang a"
    unfolding caps_ext_def by blast
  from assms(2) obtain n2 where n2: "snd z = n2 @ snd y"
      "\<forall>p \<in> set n2. \<exists>a. (fst p, a) \<in> set G \<and> snd p \<in> lang a"
    unfolding caps_ext_def by blast
  have "snd z = (n2 @ n1) @ snd x" using n1(1) n2(1) by simp
  moreover have "\<forall>p \<in> set (n2 @ n1). \<exists>a. (fst p, a) \<in> set G \<and> snd p \<in> lang a"
    using n1(2) n2(2) by auto
  ultimately show ?thesis unfolding caps_ext_def by blast
qed

lemma caps_ext_mono: "set G \<subseteq> set H \<Longrightarrow> caps_ext G x y \<Longrightarrow> caps_ext H x y"
  unfolding caps_ext_def by blast

lemma rmatch_caps: "st' \<in> set (rmatch r st) \<Longrightarrow> caps_ext (grps r) st st'"
proof (induction r arbitrary: st st')
  case (Lit l)
  then show ?case by (cases st) (auto simp: caps_ext_def split: if_splits)
next
  case (Cls rs)
  then show ?case by (cases st) (auto simp: caps_ext_def split: list.splits if_splits)
next
  case (Seq a b)
  from Seq.prems obtain m where m: "m \<in> set (rmatch a st)" "st' \<in> set (rmatch b m)"
    by auto
  have "caps_ext (grps (Seq a b)) st m"
    using Seq.IH(1) [OF m(1)] by (rule caps_ext_mono [rotated]) simp
  moreover have "caps_ext (grps (Seq a b)) m st'"
    using Seq.IH(2) [OF m(2)] by (rule caps_ext_mono [rotated]) simp
  ultimately show ?case by (rule caps_ext_trans)
next
  case (Opt a)
  from Opt.prems consider "st' = st" | "st' \<in> set (rmatch a st)" by auto
  then show ?case
  proof cases
    case 1
    then show ?thesis by (simp add: caps_ext_refl)
  next
    case 2
    from Opt.IH [OF this] show ?thesis by simp
  qed
next
  case (Star a)
  from Star.prems have "st' \<in> set (star_iter (rmatch a) (length (fst st)) st)" by simp
  then have "caps_ext (grps a) st st'"
  proof (rule star_iter_rel [where f = "rmatch a" and R = "caps_ext (grps a)"])
    show "caps_ext (grps a) x y" if "y \<in> set (rmatch a x)" for x y
      using that by (rule Star.IH)
    show "caps_ext (grps a) x x" for x by (rule caps_ext_refl)
    show "caps_ext (grps a) x z" if "caps_ext (grps a) x y" "caps_ext (grps a) y z" for x y z
      using that by (rule caps_ext_trans)
  qed
  then show ?case by simp
next
  case (Plus a)
  from Plus.prems obtain m where m: "m \<in> set (rmatch a st)"
      "st' \<in> set (star_iter (rmatch a) (length (fst m)) m)"
    by auto
  from m(2) have "caps_ext (grps a) m st'"
  proof (rule star_iter_rel [where f = "rmatch a" and R = "caps_ext (grps a)"])
    show "caps_ext (grps a) x y" if "y \<in> set (rmatch a x)" for x y
      using that by (rule Plus.IH)
    show "caps_ext (grps a) x x" for x by (rule caps_ext_refl)
    show "caps_ext (grps a) x z" if "caps_ext (grps a) x y" "caps_ext (grps a) y z" for x y z
      using that by (rule caps_ext_trans)
  qed
  with Plus.IH [OF m(1)] have "caps_ext (grps a) st st'" by (rule caps_ext_trans)
  then show ?case by simp
next
  case (Grp n a)
  obtain s c where st: "st = (s, c)" by (cases st)
  with Grp.prems obtain s' c' where m: "(s', c') \<in> set (rmatch a (s, c))"
      "st' = (s', (n, take (length s - length s') s) # c')"
    by auto
  from rmatch_sound [OF m(1)] obtain u where u: "u \<in> lang a" "s = u @ s'" by auto
  then have tk: "take (length s - length s') s = u" by simp
  from Grp.IH [OF m(1)] obtain new where new: "c' = new @ c"
      "\<forall>p \<in> set new. \<exists>b. (fst p, b) \<in> set (grps a) \<and> snd p \<in> lang b"
    by (auto simp: caps_ext_def)
  have "snd st' = ((n, u) # new) @ snd st" using m(2) tk new(1) st by simp
  moreover have "\<forall>p \<in> set ((n, u) # new). \<exists>b. (fst p, b) \<in> set (grps (Grp n a)) \<and> snd p \<in> lang b"
    using new(2) u(1) by auto
  ultimately show ?case unfolding caps_ext_def by blast
qed

lemma rmatch_mand:
  "st' \<in> set (rmatch r st) \<Longrightarrow> set (mand r) \<union> fst ` set (snd st) \<subseteq> fst ` set (snd st')"
proof (induction r arbitrary: st st')
  case (Lit l)
  then show ?case by (cases st) (auto split: if_splits)
next
  case (Cls rs)
  then show ?case by (cases st) (auto split: list.splits if_splits)
next
  case (Seq a b)
  from Seq.prems obtain m where m: "m \<in> set (rmatch a st)" "st' \<in> set (rmatch b m)"
    by auto
  from Seq.IH(1) [OF m(1)] have 1: "set (mand a) \<subseteq> fst ` set (snd m)"
    "fst ` set (snd st) \<subseteq> fst ` set (snd m)" by blast+
  from Seq.IH(2) [OF m(2)] have 2: "set (mand b) \<subseteq> fst ` set (snd st')"
    "fst ` set (snd m) \<subseteq> fst ` set (snd st')" by blast+
  from 1 2 have "set (mand a) \<union> set (mand b) \<union> fst ` set (snd st) \<subseteq> fst ` set (snd st')"
    by blast
  then show ?case by simp
next
  case (Opt a)
  from Opt.prems consider "st' = st" | "st' \<in> set (rmatch a st)" by auto
  then show ?case
  proof cases
    case 1
    then show ?thesis by simp
  next
    case 2
    from Opt.IH [OF this] show ?thesis by simp
  qed
next
  case (Star a)
  from Star.prems have "st' \<in> set (star_iter (rmatch a) (length (fst st)) st)" by simp
  then have "names_kept st st'"
  proof (rule star_iter_rel [where f = "rmatch a" and R = names_kept])
    show "names_kept x y" if "y \<in> set (rmatch a x)" for x y
      using Star.IH [OF that] by (simp add: names_kept_def)
  qed (auto simp: names_kept_def)
  then show ?case by (simp add: names_kept_def)
next
  case (Plus a)
  from Plus.prems obtain m where m: "m \<in> set (rmatch a st)"
      "st' \<in> set (star_iter (rmatch a) (length (fst m)) m)"
    by auto
  from m(2) have "names_kept m st'"
  proof (rule star_iter_rel [where f = "rmatch a" and R = names_kept])
    show "names_kept x y" if "y \<in> set (rmatch a x)" for x y
      using Plus.IH [OF that] by (simp add: names_kept_def)
  qed (auto simp: names_kept_def)
  then have 2: "fst ` set (snd m) \<subseteq> fst ` set (snd st')" by (simp add: names_kept_def)
  from Plus.IH [OF m(1)] have 1: "set (mand a) \<subseteq> fst ` set (snd m)"
    "fst ` set (snd st) \<subseteq> fst ` set (snd m)" by blast+
  from 1 2 have "set (mand a) \<union> fst ` set (snd st) \<subseteq> fst ` set (snd st')" by blast
  then show ?case by simp
next
  case (Grp n a)
  obtain s c where st: "st = (s, c)" by (cases st)
  with Grp.prems obtain s' c' where m: "(s', c') \<in> set (rmatch a (s, c))"
      "st' = (s', (n, take (length s - length s') s) # c')"
    by auto
  from Grp.IH [OF m(1)] m(2) st show ?case by auto
qed


section \<open>Parsing a function line\<close>

lemma star_lang_cls:
  "w \<in> star_lang (lang (Cls rs)) \<Longrightarrow> list_all (\<lambda>x. in_class x rs) w"
  by (induction rule: star_lang.induct) auto

lemma in_class_digit: "in_class x [(CHR ''0'', CHR ''9'')] = is_digit x"
  by (simp add: in_class_def is_digit_def)

lemma lang_plus_digit:
  assumes "w \<in> lang (Plus digit)"
  shows "w \<noteq> [] \<and> list_all is_digit w"
proof -
  from assms obtain x v where w: "w = [x] @ v" "in_class x [(CHR ''0'', CHR ''9'')]"
      "v \<in> star_lang (lang (Cls [(CHR ''0'', CHR ''9'')]))"
    by (auto simp: digit_def)
  from star_lang_cls [OF w(3)] have "list_all is_digit v"
    by (simp add: in_class_digit)
  with w(1,2) show ?thesis by (simp add: in_class_digit)
qed

lemma split_on_nosep: "c \<notin> set a \<Longrightarrow> split_on c a = [a]"
  by (induction a) auto

lemma split_on_append: "c \<notin> set a \<Longrightarrow> split_on c (a @ c # rest) = a # split_on c rest"
  by (induction a) auto

lemma digits_no_dot: "list_all is_digit d \<Longrightarrow> CHR ''.'' \<notin> set d"
  by (auto simp: list_all_iff is_digit_def)

lemma py_int_digits:
  "d \<noteq> [] \<Longrightarrow> list_all is_digit d \<Longrightarrow> length d \<le> int_max_str_digits \<Longrightarrow> \<exists>n. py_int d = Inr n"
  by (simp add: py_int_def)

lemma py_int_overlong:
  "d \<noteq> [] \<Longrightarrow> list_all is_digit d \<Longrightarrow> int_max_str_digits < length d \<Longrightarrow>
   py_int d = Inl (ValueError (int_limit_message d))"
  by (simp add: py_int_def)

lemma ints_outcome:
  assumes "\<forall>d \<in> set ds. d \<noteq> [] \<and> list_all is_digit d"
  shows "(list_all (\<lambda>d. length d \<le> int_max_str_digits) ds \<longrightarrow> (\<exists>ns. ints ds = Inr ns))
       \<and> (\<not> list_all (\<lambda>d. length d \<le> int_max_str_digits) ds \<longrightarrow>
            (\<exists>d \<in> set ds. int_max_str_digits < length d
                \<and> ints ds = Inl (ValueError (int_limit_message d))))"
  using assms
proof (induction ds)
  case Nil
  then show ?case by simp
next
  case (Cons d ds)
  then have d: "d \<noteq> []" "list_all is_digit d" by simp_all
  from Cons have ih: "(list_all (\<lambda>d. length d \<le> int_max_str_digits) ds \<longrightarrow> (\<exists>ns. ints ds = Inr ns))
       \<and> (\<not> list_all (\<lambda>d. length d \<le> int_max_str_digits) ds \<longrightarrow>
            (\<exists>d \<in> set ds. int_max_str_digits < length d
                \<and> ints ds = Inl (ValueError (int_limit_message d))))"
    by simp
  show ?case
  proof (cases "length d \<le> int_max_str_digits")
    case True
    from py_int_digits [OF d True] obtain n where n: "py_int d = Inr n" by blast
    show ?thesis
    proof (cases "list_all (\<lambda>d. length d \<le> int_max_str_digits) ds")
      case all: True
      with ih obtain ns where "ints ds = Inr ns" by blast
      with n True all show ?thesis by simp
    next
      case notall: False
      with ih obtain e where e: "e \<in> set ds" "int_max_str_digits < length e"
          "ints ds = Inl (ValueError (int_limit_message e))"
        by blast
      have "ints (d # ds) = Inl (ValueError (int_limit_message e))"
        using n e(3) by simp
      with e(1,2) notall show ?thesis by auto
    qed
  next
    case False
    then have long: "int_max_str_digits < length d" by simp
    from py_int_overlong [OF d long] have "ints (d # ds) = Inl (ValueError (int_limit_message d))"
      by simp
    with long False show ?thesis by auto
  qed
qed

lemma version_re_components:
  assumes "v \<in> lang version_re"
  shows "\<forall>d \<in> set (split_on CHR ''.'' v). d \<noteq> [] \<and> list_all is_digit d"
proof -
  from assms obtain d1 d2 d3 where v: "v = d1 @ ''.'' @ d2 @ ''.'' @ d3"
      "d1 \<in> lang (Plus digit)" "d2 \<in> lang (Plus digit)" "d3 \<in> lang (Plus digit)"
    unfolding version_re_def seqs.simps lang.simps(1,3) by blast
  from lang_plus_digit [OF v(2)] lang_plus_digit [OF v(3)] lang_plus_digit [OF v(4)]
  have d: "d1 \<noteq> []" "list_all is_digit d1" "d2 \<noteq> []" "list_all is_digit d2"
      "d3 \<noteq> []" "list_all is_digit d3"
    by simp_all
  have "split_on CHR ''.'' v = [d1, d2, d3]"
    using d by (simp add: v(1) split_on_append split_on_nosep digits_no_dot)
  with d show ?thesis by simp
qed

lemma version_tuple_outcome:
  assumes "v \<in> lang version_re"
  shows "(list_all (\<lambda>d. length d \<le> int_max_str_digits) (split_on CHR ''.'' v) \<longrightarrow>
            (\<exists>t. version_tuple (Some v) = Inr t))
       \<and> (\<not> list_all (\<lambda>d. length d \<le> int_max_str_digits) (split_on CHR ''.'' v) \<longrightarrow>
            (\<exists>d \<in> set (split_on CHR ''.'' v). int_max_str_digits < length d
                \<and> version_tuple (Some v) = Inl (ValueError (int_limit_message d))))"
proof (cases "list_all (\<lambda>d. length d \<le> int_max_str_digits) (split_on CHR ''.'' v)")
  case True
  with ints_outcome [OF version_re_components [OF assms]]
  obtain ns where "ints (split_on CHR ''.'' v) = Inr ns" by blast
  with True show ?thesis by (simp add: version_tuple_def)
next
  case False
  with ints_outcome [OF version_re_components [OF assms]]
  obtain e where e: "e \<in> set (split_on CHR ''.'' v)" "int_max_str_digits < length e"
      "ints (split_on CHR ''.'' v) = Inl (ValueError (int_limit_message e))"
    by blast
  from e(3) have "version_tuple (Some v) = Inl (ValueError (int_limit_message e))"
    by (simp add: version_tuple_def)
  with e(1,2) False show ?thesis by auto
qed

lemma grps_PATTERN:
  "grps PATTERN =
     [(''mpi'', Seq (Lit ''MPI'') (Plus sp)), (''error'', Seq (Lit ''ERROR'') (Plus sp)),
      (''min_version'', version_re), (''max_version'', version_re), (''code'', type_re),
      (''fname'', Seq (Plus ident_start) (Star ident_char)), (''sig'', Star sig_chars)]"
  by (simp add: PATTERN_def sp_def version_re_def digit_def type_re_def ident_start_def
      ident_char_def sig_chars_def)

lemma mand_PATTERN: "mand PATTERN = [''code'', ''fname'', ''sig'']"
  by (simp add: PATTERN_def sp_def version_re_def digit_def type_re_def ident_start_def
      ident_char_def sig_chars_def)

lemma re_match_Some_mem: "re_match r text = Some st \<Longrightarrow> st \<in> set (rmatch r (text, []))"
  by (auto simp: re_match_def split: list.splits)

lemma map_of_version:
  assumes "re_match PATTERN text = Some (rest, parts)"
    and "n = ''min_version'' \<or> n = ''max_version''"
    and "cs = (case map_of parts n of None \<Rightarrow> [] | Some v \<Rightarrow> split_on CHR ''.'' v)"
  shows "(list_all (\<lambda>d. length d \<le> int_max_str_digits) cs \<longrightarrow>
            (\<exists>t. version_tuple (map_of parts n) = Inr t))
       \<and> (\<not> list_all (\<lambda>d. length d \<le> int_max_str_digits) cs \<longrightarrow>
            (\<exists>d \<in> set cs. int_max_str_digits < length d
                \<and> version_tuple (map_of parts n) = Inl (ValueError (int_limit_message d))))"
proof (cases "map_of parts n")
  case None
  with assms(3) show ?thesis by (simp add: version_tuple_def)
next
  case (Some t)
  then have mem: "(n, t) \<in> set parts" by (rule map_of_SomeD)
  from rmatch_caps [OF re_match_Some_mem [OF assms(1)]]
  have "\<forall>p \<in> set parts. \<exists>a. (fst p, a) \<in> set (grps PATTERN) \<and> snd p \<in> lang a"
    by (auto simp: caps_ext_def)
  with mem obtain a where a: "(n, a) \<in> set (grps PATTERN)" "t \<in> lang a" by force
  from a(1) assms(2) have "a = version_re" by (auto simp: grps_PATTERN)
  with a(2) have "t \<in> lang version_re" by simp
  from version_tuple_outcome [OF this] Some assms(3) show ?thesis by simp
qed

lemma map_of_mandatory:
  assumes "re_match PATTERN text = Some (rest, parts)"
  shows "\<exists>c f g. map_of parts ''code'' = Some c \<and> map_of parts ''fname'' = Some f
            \<and> map_of parts ''sig'' = Some g"
proof -
  from rmatch_mand [OF re_match_Some_mem [OF assms]]
  have "set (mand PATTERN) \<subseteq> fst ` set parts" by simp
  then have "''code'' \<in> fst ` set parts" "''fname'' \<in> fst ` set parts" "''sig'' \<in> fst ` set parts"
    by (simp_all add: mand_PATTERN)
  then have "map_of parts ''code'' \<noteq> None" "map_of parts ''fname'' \<noteq> None"
      "map_of parts ''sig'' \<noteq> None"
    by (simp_all add: map_of_eq_None_iff)
  then show ?thesis by auto
qed

lemma Line_init_match:
  assumes "re_match PATTERN text = Some (rest, parts)"
  shows "(list_all (\<lambda>d. length d \<le> int_max_str_digits) (version_components text) \<longrightarrow>
            (\<exists>l. Line_init text = Inr l))
       \<and> (\<not> list_all (\<lambda>d. length d \<le> int_max_str_digits) (version_components text) \<longrightarrow>
            (\<exists>d \<in> set (version_components text). int_max_str_digits < length d
                \<and> Line_init text = Inl (ValueError (int_limit_message d))))"
proof -
  define cmin where "cmin = (case map_of parts ''min_version'' of
      None \<Rightarrow> [] | Some v \<Rightarrow> split_on CHR ''.'' v)"
  define cmax where "cmax = (case map_of parts ''max_version'' of
      None \<Rightarrow> [] | Some v \<Rightarrow> split_on CHR ''.'' v)"
  have vc: "version_components text = cmin @ cmax"
    by (simp add: version_components_def assms cmin_def cmax_def)
  have omin: "(list_all (\<lambda>d. length d \<le> int_max_str_digits) cmin \<longrightarrow>
            (\<exists>t. version_tuple (map_of parts ''min_version'') = Inr t))
       \<and> (\<not> list_all (\<lambda>d. length d \<le> int_max_str_digits) cmin \<longrightarrow>
            (\<exists>d \<in> set cmin. int_max_str_digits < length d
                \<and> version_tuple (map_of parts ''min_version'') =
                    Inl (ValueError (int_limit_message d))))"
    by (rule map_of_version [OF assms _ cmin_def]) simp
  have omax: "(list_all (\<lambda>d. length d \<le> int_max_str_digits) cmax \<longrightarrow>
            (\<exists>t. version_tuple (map_of parts ''max_version'') = Inr t))
       \<and> (\<not> list_all (\<lambda>d. length d \<le> int_max_str_digits) cmax \<longrightarrow>
            (\<exists>d \<in> set cmax. int_max_str_digits < length d
                \<and> version_tuple (map_of parts ''max_version'') =
                    Inl (ValueError (int_limit_message d))))"
    by (rule map_of_version [OF assms _ cmax_def]) simp
  from map_of_mandatory [OF assms] obtain c f g
    where m: "map_of parts ''code'' = Some c" "map_of parts ''fname'' = Some f"
      "map_of parts ''sig'' = Some g" by blast
  show ?thesis
  proof (cases "list_all (\<lambda>d. length d \<le> int_max_str_digits) cmin")
    case badmin: False
    with omin obtain e where e: "e \<in> set cmin" "int_max_str_digits < length e"
        "version_tuple (map_of parts ''min_version'') = Inl (ValueError (int_limit_message e))"
      by blast
    have "Line_init text = Inl (ValueError (int_limit_message e))"
      unfolding Line_init_def by (simp add: assms e(3))
    with e(1,2) badmin vc show ?thesis by auto
  next
    case okmin: True
    with omin obtain minv
      where minv: "version_tuple (map_of parts ''min_version'') = Inr minv" by blast
    show ?thesis
    proof (cases "list_all (\<lambda>d. length d \<le> int_max_str_digits) cmax")
      case badmax: False
      with omax obtain e where e: "e \<in> set cmax" "int_max_str_digits < length e"
          "version_tuple (map_of parts ''max_version'') = Inl (ValueError (int_limit_message e))"
        by blast
      have "Line_init text = Inl (ValueError (int_limit_message e))"
        unfolding Line_init_def by (simp add: assms minv e(3))
      with e(1,2) badmax vc show ?thesis by auto
    next
      case okmax: True
      with omax obtain maxv
        where maxv: "version_tuple (map_of parts ''max_version'') = Inr maxv" by blast
      have "\<exists>l. Line_init text = Inr l"
        unfolding Line_init_def
        by (simp add: assms minv maxv m is_None_list_def Let_def)
      with okmin okmax vc show ?thesis by simp
    qed
  qed
qed

lemma Line_init_no_match:
  "re_match PATTERN text = None \<Longrightarrow>
   Line_init text = Inl (ValueError (''Invalid line encountered: '' @ text))"
  by (simp add: Line_init_def)

lemma matches_prefix_iff: "matches_prefix r t \<longleftrightarrow> re_match r t \<noteq> None"
  by (simp add: re_match_None_iff)

lemma version_components_no_match:
  "re_match PATTERN text = None \<Longrightarrow> version_components text = []"
  by (simp add: version_components_def)

text \<open>
  A line that starts with the digit \<open>1\<close>: the minimum version is the only way into a match,
  so every match captures it, and its first part is the run of digits in front of the
  first dot. When that run is longer than \<open>int\<close> accepts, the line fails with the error
  of \<open>int\<close>.
\<close>

lemma PATTERN_split:
  "PATTERN =
     Seq (Opt (Grp ''mpi'' (Seq (Lit ''MPI'') (Plus sp))))
       (Seq (Opt (Grp ''error'' (Seq (Lit ''ERROR'') (Plus sp))))
          (Seq (Opt (Grp ''min_version'' version_re)) PATTERN_rest))"
  by (simp add: PATTERN_def PATTERN_rest_def)

lemma rest_on_digit: "rmatch PATTERN_rest (CHR ''1'' # t, c) = []"
  by (simp add: PATTERN_rest_def type_re_def sp_def ident_start_def in_class_def startswith_def)

lemma front_on_digit:
  assumes "rmatch R (CHR ''1'' # t, []) = []"
  shows "rmatch (Seq (Opt (Grp ''mpi'' (Seq (Lit ''MPI'') (Plus sp))))
           (Seq (Opt (Grp ''error'' (Seq (Lit ''ERROR'') (Plus sp))))
              (Seq (Opt (Grp n V)) R))) (CHR ''1'' # t, []) =
         concat (map (rmatch R) (rmatch (Grp n V) (CHR ''1'' # t, [])))"
  using assms by (simp add: startswith_def)

lemma rmatch_PATTERN_on_digit:
  "rmatch PATTERN (CHR ''1'' # t, []) =
   concat (map (rmatch PATTERN_rest) (rmatch (Grp ''min_version'' version_re) (CHR ''1'' # t, [])))"
  unfolding PATTERN_split by (rule front_on_digit) (rule rest_on_digit)

lemma grps_version_re: "grps version_re = []"
  by (simp add: version_re_def digit_def)

lemma grp_version_states:
  assumes "m \<in> set (rmatch (Grp ''min_version'' version_re) (s, []))"
  shows "\<exists>u s'. s = u @ s' \<and> u \<in> lang version_re \<and> m = (s', [(''min_version'', u)])"
proof -
  from assms obtain s' c' where sc: "(s', c') \<in> set (rmatch version_re (s, []))"
      "m = (s', (''min_version'', take (length s - length s') s) # c')"
    by auto
  from rmatch_sound [OF sc(1)] obtain u where u: "u \<in> lang version_re" "s = u @ s'" by auto
  then have tk: "take (length s - length s') s = u" by simp
  from rmatch_caps [OF sc(1)] obtain new where new: "c' = new"
      "\<forall>p \<in> set new. \<exists>a. (fst p, a) \<in> set (grps version_re) \<and> snd p \<in> lang a"
    unfolding caps_ext_def by auto
  have "new = []"
  proof (cases new)
    case Nil
    then show ?thesis .
  next
    case (Cons p ps)
    then have "p \<in> set new" by simp
    with new(2) obtain a where "(fst p, a) \<in> set (grps version_re)" by blast
    then show ?thesis by (simp add: grps_version_re)
  qed
  with new(1) have "c' = []" by simp
  with sc(2) tk u show ?thesis by simp
qed

lemma grps_small: "grps sp = []" "grps type_re = []" "grps ident_start = []"
    "grps ident_char = []" "grps sig_chars = []"
  by (simp_all add: sp_def type_re_def ident_start_def ident_char_def sig_chars_def)

lemma names_PATTERN_rest:
  "map fst (grps PATTERN_rest) = [''max_version'', ''code'', ''fname'', ''sig'']"
  by (simp add: PATTERN_rest_def grps_small grps_version_re)

lemma grps_PATTERN_rest:
  "fst ` set (grps PATTERN_rest) = set [''max_version'', ''code'', ''fname'', ''sig'']"
  unfolding names_PATTERN_rest [symmetric] by simp

lemma rest_keeps_min_version:
  assumes "st' \<in> set (rmatch PATTERN_rest (s', [(''min_version'', u)]))"
  shows "map_of (snd st') ''min_version'' = Some u"
proof -
  from rmatch_caps [OF assms] obtain new where new: "snd st' = new @ [(''min_version'', u)]"
      "\<forall>p \<in> set new. \<exists>a. (fst p, a) \<in> set (grps PATTERN_rest) \<and> snd p \<in> lang a"
    by (auto simp: caps_ext_def)
  have "fst p \<in> fst ` set (grps PATTERN_rest)" if "p \<in> set new" for p
    using new(2) that by force
  then have sub: "fst ` set new \<subseteq> set [''max_version'', ''code'', ''fname'', ''sig'']"
    unfolding grps_PATTERN_rest by blast
  have "''min_version'' \<notin> set [''max_version'', ''code'', ''fname'', ''sig'']" by simp
  with sub have "''min_version'' \<notin> fst ` set new" by blast
  then have "map_of new ''min_version'' = None" by (simp add: map_of_eq_None_iff)
  with new(1) show ?thesis by (simp add: map_add_def)
qed

lemma takeWhile_before_sep: "c \<notin> set a \<Longrightarrow> takeWhile (\<lambda>x. x \<noteq> c) (a @ c # y) = a"
  by (induction a) auto

lemma first_component:
  assumes "u \<in> lang version_re" and "u @ s' = D @ ''.'' @ r" and "list_all is_digit D"
  shows "\<exists>ds. split_on CHR ''.'' u = D # ds"
proof -
  from assms(1) obtain d1 d2 d3 where v: "u = d1 @ ''.'' @ d2 @ ''.'' @ d3"
      "d1 \<in> lang (Plus digit)"
    unfolding version_re_def seqs.simps lang.simps(1,3) by blast
  from lang_plus_digit [OF v(2)] have d1: "CHR ''.'' \<notin> set d1" by (simp add: digits_no_dot)
  from assms(3) have D: "CHR ''.'' \<notin> set D" by (rule digits_no_dot)
  have "takeWhile (\<lambda>x. x \<noteq> CHR ''.'') (u @ s') = d1"
    using d1 by (simp add: v(1) takeWhile_before_sep)
  moreover have "takeWhile (\<lambda>x. x \<noteq> CHR ''.'') (D @ ''.'' @ r) = D"
    using D by (simp add: takeWhile_before_sep)
  ultimately have "d1 = D" using assms(2) by simp
  with v(1) D show ?thesis by (simp add: split_on_append)
qed

lemma overlong_min_version_line:
  assumes dig: "list_all is_digit D'" and long: "int_max_str_digits \<le> length D'"
    and mp: "matches_prefix PATTERN (CHR ''1'' # D' @ ''.'' @ r)"
  shows "Line_init (CHR ''1'' # D' @ ''.'' @ r) =
           Inl (ValueError (int_limit_message (CHR ''1'' # D')))
       \<and> (\<exists>ds. version_components (CHR ''1'' # D' @ ''.'' @ r) = (CHR ''1'' # D') # ds)"
proof -
  define T where "T = CHR ''1'' # D' @ ''.'' @ r"
  from mp obtain st' where st': "re_match PATTERN T = Some st'"
    by (auto simp: matches_prefix_iff T_def)
  obtain rest parts where rp: "st' = (rest, parts)" by (cases st')
  have T1: "T = CHR ''1'' # (D' @ ''.'' @ r)" by (simp add: T_def)
  from re_match_Some_mem [OF st']
  have "st' \<in> set (concat (map (rmatch PATTERN_rest)
                  (rmatch (Grp ''min_version'' version_re) (T, []))))"
    unfolding T1 rmatch_PATTERN_on_digit .
  then obtain m where m: "m \<in> set (rmatch (Grp ''min_version'' version_re) (T, []))"
      "st' \<in> set (rmatch PATTERN_rest m)"
    unfolding set_concat by (auto simp del: rmatch.simps)
  from grp_version_states [OF m(1)] obtain u s' where u: "T = u @ s'" "u \<in> lang version_re"
      "m = (s', [(''min_version'', u)])"
    by blast
  from rest_keeps_min_version [of st' s' u] m(2) u(3) rp
  have mv: "map_of parts ''min_version'' = Some u" by simp
  have isd: "list_all is_digit (CHR ''1'' # D')" using dig by (simp add: is_digit_def)
  have "u @ s' = (CHR ''1'' # D') @ ''.'' @ r" using u(1) by (simp add: T_def)
  from first_component [OF u(2) this isd] obtain ds
    where ds: "split_on CHR ''.'' u = (CHR ''1'' # D') # ds" by blast
  have "py_int (CHR ''1'' # D') = Inl (ValueError (int_limit_message (CHR ''1'' # D')))"
    using long by (intro py_int_overlong isd) simp_all
  then have "version_tuple (Some u) = Inl (ValueError (int_limit_message (CHR ''1'' # D')))"
    by (simp add: version_tuple_def ds)
  then have "Line_init T = Inl (ValueError (int_limit_message (CHR ''1'' # D')))"
    unfolding Line_init_def by (simp add: st' rp mv)
  moreover have "\<exists>ds. version_components T = (CHR ''1'' # D') # ds"
    by (simp add: version_components_def st' rp mv ds)
  ultimately show ?thesis by (simp add: T_def)
qed

lemma cls_star: "list_all (\<lambda>x. in_class x rs) w \<Longrightarrow> w \<in> star_lang (lang (Cls rs))"
proof (induction w)
  case Nil
  show ?case by (rule star_nil)
next
  case (Cons x w)
  then have "[x] \<in> lang (Cls rs)" "w \<in> star_lang (lang (Cls rs))" by simp_all
  then have "[x] @ w \<in> star_lang (lang (Cls rs))" by (rule star_app)
  then show ?case by simp
qed

lemma digits_in_plus:
  assumes "is_digit x" and "list_all is_digit d"
  shows "x # d \<in> lang (Plus digit)"
proof -
  have "[x] \<in> lang digit" using assms(1) by (simp add: digit_def in_class_digit)
  moreover have "d \<in> star_lang (lang digit)"
    unfolding digit_def using assms(2) by (intro cls_star) (simp add: in_class_digit)
  ultimately have "[x] @ d \<in> lang (Plus digit)" unfolding lang.simps by blast
  then show ?thesis by simp
qed

lemma lang_SeqI: "a \<in> lang r \<Longrightarrow> b \<in> lang s \<Longrightarrow> a @ b \<in> lang (Seq r s)"
  by auto

lemma overlong_line_matches:
  assumes "list_all is_digit D'"
  shows "matches_prefix PATTERN (CHR ''1'' # D' @ ''.'' @ ''0.0 int f(void)'')"
proof -
  have one: "is_digit CHR ''1''" and zero: "is_digit CHR ''0''" by (simp_all add: is_digit_def)
  have d1: "CHR ''1'' # D' \<in> lang (Plus digit)" using one assms by (rule digits_in_plus)
  have d0: "''0'' \<in> lang (Plus digit)" using zero by (rule digits_in_plus) simp
  have dot: "''.'' \<in> lang (Lit ''.'')" by simp
  have "(CHR ''1'' # D') @ ''.'' @ ''0'' @ ''.'' @ ''0'' \<in> lang version_re"
    unfolding version_re_def seqs.simps
    by (intro lang_SeqI d1 d0 dot)
  then have v: "(CHR ''1'' # D') @ ''.0.0'' \<in> lang (Opt (Grp ''min_version'' version_re))"
    by simp
  have w: "'' int f(void)'' \<in> lang PATTERN_rest"
    unfolding lang_iff_rmatch by code_simp
  have e1: "[] \<in> lang (Opt (Grp ''mpi'' (Seq (Lit ''MPI'') (Plus sp))))" by simp
  have e2: "[] \<in> lang (Opt (Grp ''error'' (Seq (Lit ''ERROR'') (Plus sp))))" by simp
  have "[] @ [] @ ((CHR ''1'' # D') @ ''.0.0'') @ '' int f(void)'' \<in> lang PATTERN"
    unfolding PATTERN_split by (intro lang_SeqI e1 e2 v w)
  then have "CHR ''1'' # D' @ ''.'' @ ''0.0 int f(void)'' \<in> lang PATTERN" by simp
  then show ?thesis unfolding matches_prefix_def by (metis append_Nil2)
qed

lemma overlong_message:
  "int_limit_message (CHR ''1'' # replicate 4300 CHR ''1'') =
   ''Exceeds the limit (4300 digits) for integer string conversion: value has 4301 digits; use sys.set_int_max_str_digits() to increase the limit''"
proof -
  have "length (CHR ''1'' # replicate 4300 CHR ''1'') = 4301" by simp
  moreover have "str_nat 4301 = ''4301''" by (simp add: str_nat.simps)
  moreover have "str_nat int_max_str_digits = ''4300''"
    by (simp add: int_max_str_digits_def str_nat.simps)
  ultimately show ?thesis unfolding int_limit_message_def by simp
qed

lemma overlong_line_fails:
  "matches_prefix PATTERN (CHR ''1'' # replicate 4300 CHR ''1'' @ ''.'' @ ''0.0 int f(void)'')
   \<and> Line_init (CHR ''1'' # replicate 4300 CHR ''1'' @ ''.'' @ ''0.0 int f(void)'') =
       Inl (ValueError ''Exceeds the limit (4300 digits) for integer string conversion: value has 4301 digits; use sys.set_int_max_str_digits() to increase the limit'')"
proof -
  have dig: "list_all is_digit (replicate 4300 CHR ''1'')"
    by (simp add: list_all_iff is_digit_def)
  have long: "int_max_str_digits \<le> length (replicate 4300 CHR ''1'')"
    by (simp add: int_max_str_digits_def)
  note mp = overlong_line_matches [OF dig]
  from overlong_min_version_line [OF dig long mp] mp show ?thesis
    unfolding overlong_message by simp
qed

text \<open>
  C2, as the code has it. \<open>Line.__init__\<close> uses \<open>PATTERN.match\<close>, which anchors the match at
  the start of the line only, and then converts the parts of the matched versions with
  \<open>int\<close>. The parser returns a descriptor exactly when some prefix of the line matches the
  descriptor grammar and no part of a matched version has more digits than \<open>int\<close>
  accepts; it fails with the \<open>ValueError\<close> that names the line exactly when no prefix
  matches; and the only other outcome is the \<open>ValueError\<close> of \<open>int\<close> for a part of a
  version that is too long.
\<close>

theorem parse_outcomes:
  "((\<exists>l. Line_init text = Inr l) \<longleftrightarrow>
      matches_prefix PATTERN text
      \<and> list_all (\<lambda>d. length d \<le> int_max_str_digits) (version_components text))
   \<and> (Line_init text = Inl (ValueError (''Invalid line encountered: '' @ text)) \<longleftrightarrow>
      \<not> matches_prefix PATTERN text)
   \<and> ((\<exists>l. Line_init text = Inr l)
      \<or> Line_init text = Inl (ValueError (''Invalid line encountered: '' @ text))
      \<or> (\<exists>d \<in> set (version_components text). int_max_str_digits < length d
            \<and> Line_init text = Inl (ValueError (int_limit_message d))))"
proof (cases "re_match PATTERN text")
  case None
  then have "\<not> matches_prefix PATTERN text" by (simp add: matches_prefix_iff)
  with Line_init_no_match [OF None] show ?thesis by simp
next
  case (Some st)
  obtain rest parts where "st = (rest, parts)" by (cases st)
  with Some have m: "re_match PATTERN text = Some (rest, parts)" by simp
  then have mp: "matches_prefix PATTERN text" by (simp add: matches_prefix_iff)
  show ?thesis
  proof (cases "list_all (\<lambda>d. length d \<le> int_max_str_digits) (version_components text)")
    case True
    with Line_init_match [OF m] obtain l where "Line_init text = Inr l" by blast
    with mp True show ?thesis by simp
  next
    case False
    with Line_init_match [OF m] obtain e where e: "e \<in> set (version_components text)"
        "int_max_str_digits < length e"
        "Line_init text = Inl (ValueError (int_limit_message e))"
      by blast
    have ne: "int_limit_message e \<noteq> ''Invalid line encountered: '' @ text"
      by (simp add: int_limit_message_def)
    from e mp False ne show ?thesis by auto
  qed
qed

theorem parse_outcomes_witness:
  "matches_prefix PATTERN ''1.8.12 hid_t bar(void)''
   \<and> version_components ''1.8.12 hid_t bar(void)'' = [''1'', ''8'', ''12'']
   \<and> (\<exists>l. Line_init ''1.8.12 hid_t bar(void)'' = Inr l)
   \<and> \<not> matches_prefix PATTERN ''int 2foo(void)''
   \<and> Line_init ''int 2foo(void)'' =
       Inl (ValueError (''Invalid line encountered: '' @ ''int 2foo(void)''))
   \<and> matches_prefix PATTERN (CHR ''1'' # replicate 4300 CHR ''1'' @ ''.0.0 int f(void)'')
   \<and> \<not> list_all (\<lambda>d. length d \<le> int_max_str_digits)
         (version_components (CHR ''1'' # replicate 4300 CHR ''1'' @ ''.0.0 int f(void)''))
   \<and> Line_init (CHR ''1'' # replicate 4300 CHR ''1'' @ ''.0.0 int f(void)'') =
       Inl (ValueError ''Exceeds the limit (4300 digits) for integer string conversion: value has 4301 digits; use sys.set_int_max_str_digits() to increase the limit'')"
proof -
  have a: "matches_prefix PATTERN ''1.8.12 hid_t bar(void)''"
    unfolding matches_prefix_iff by code_simp
  have c: "version_components ''1.8.12 hid_t bar(void)'' = [''1'', ''8'', ''12'']"
    by code_simp
  have b: "\<not> matches_prefix PATTERN ''int 2foo(void)''"
    unfolding matches_prefix_iff by code_simp
  have ok: "list_all (\<lambda>d. length d \<le> int_max_str_digits) [''1'', ''8'', ''12'']"
    by (simp add: int_max_str_digits_def)
  from parse_outcomes [of "''1.8.12 hid_t bar(void)''"] a c ok
  have 1: "\<exists>l. Line_init ''1.8.12 hid_t bar(void)'' = Inr l" by simp
  from parse_outcomes [of "''int 2foo(void)''"] b
  have 2: "Line_init ''int 2foo(void)'' =
       Inl (ValueError (''Invalid line encountered: '' @ ''int 2foo(void)''))" by simp
  let ?T = "CHR ''1'' # replicate 4300 CHR ''1'' @ ''.0.0 int f(void)''"
  from overlong_line_fails have 3: "matches_prefix PATTERN ?T"
    and 4: "Line_init ?T =
       Inl (ValueError ''Exceeds the limit (4300 digits) for integer string conversion: value has 4301 digits; use sys.set_int_max_str_digits() to increase the limit'')"
    by simp_all
  from 4 have "\<not> (\<exists>l. Line_init ?T = Inr l)" by simp
  with parse_outcomes [of ?T] 3
  have 5: "\<not> list_all (\<lambda>d. length d \<le> int_max_str_digits) (version_components ?T)"
    by blast
  from a c 1 b 2 3 5 4 show ?thesis by blast
qed

text \<open>
  C2, as the specification words it, fails on a line with text behind the closing
  parenthesis: the line as a whole is not in the language of the grammar, and it is
  parsed to a descriptor all the same.
\<close>

theorem trailing_text_counterexample:
  "''int foo(a) extra'' \<notin> lang PATTERN
   \<and> Line_init ''int foo(a) extra'' =
       Inr \<lparr> mpi = False, error = False, min_version = None, max_version = None,
             code = ''int'', fname = ''foo'', sig = ''a'', args = [] \<rparr>"
proof -
  have "''int foo(a) extra'' \<notin> lang PATTERN"
    unfolding lang_iff_rmatch by code_simp
  moreover have "Line_init ''int foo(a) extra'' =
       Inr \<lparr> mpi = False, error = False, min_version = None, max_version = None,
             code = ''int'', fname = ''foo'', sig = ''a'', args = [] \<rparr>"
    by code_simp
  ultimately show ?thesis by simp
qed


section \<open>Parameter names and return types\<close>

text \<open>
  C3. The source means to reject a parameter list from which no name can be extracted
  (\<open>if self.args is None: raise ValueError\<close>), but \<open>findall\<close> returns an empty list, never
  \<open>None\<close>: a line with two unnamed parameters is parsed to a descriptor with no call
  arguments.
\<close>

theorem unnamed_parameters_not_rejected:
  "Line_init ''herr_t foo(hid_t, size_t)'' =
     Inr \<lparr> mpi = False, error = False, min_version = None, max_version = None,
           code = ''herr_t'', fname = ''foo'', sig = ''hid_t, size_t'', args = [] \<rparr>
   \<and> findall SIG_PATTERN (replace ''const'' [] (- 1) ''hid_t, size_t'') = []"
  by code_simp

text \<open>The error for a parameter list without names is never raised, whatever the line.\<close>

lemma signature_error_unreachable:
  "Line_init t \<noteq> Inl (ValueError (''Invalid function signature: '' @ g))"
proof (cases "re_match PATTERN t")
  case None
  then show ?thesis by (simp add: Line_init_no_match)
next
  case (Some st)
  obtain rest parts where "st = (rest, parts)" by (cases st)
  with Some Line_init_match [of t rest parts] show ?thesis
    by (auto simp: int_limit_message_def split: if_splits)
qed

text \<open>
  C5, as the code has it. A return type is classified as a signed status (test \<open><0\<close>,
  return value \<open>-1\<close>) exactly when it is one of the six aliases, or it starts with \<open>H5\<close>, one
  or more uppercase letters, an underscore, one or more letters or underscores, and \<open>_t\<close>,
  and is not taken by the pointer rule before (it has no \<open>*\<close> and is not \<open>H5T_conv_t\<close>).
\<close>

theorem signed_status_classification:
  "ret_class c = Inr (''<0'', ''-1'') \<longleftrightarrow>
     (c \<in> set [''int'', ''herr_t'', ''htri_t'', ''hid_t'', ''hssize_t'', ''ssize_t'']
      \<or> (matches_prefix STATUS_PATTERN c \<and> \<not> contains c ''*'' \<and> c \<noteq> ''H5T_conv_t''))"
proof -
  define A where "A \<longleftrightarrow> c \<in> set [''int'', ''herr_t'', ''htri_t'', ''hid_t'', ''hssize_t'', ''ssize_t'']"
  define U where "U \<longleftrightarrow> c \<in> set [''unsigned int'', ''haddr_t'', ''hsize_t'', ''size_t'']"
  define P where "P \<longleftrightarrow> contains c ''*'' \<or> c = ''H5T_conv_t''"
  have al: "\<not> P" if A
    using that unfolding A_def P_def by (auto simp: startswith_def)
  have rc: "ret_class c =
      (if P then Inr (''==NULL'', ''NULL'')
       else if A \<or> matches_prefix STATUS_PATTERN c then Inr (''<0'', ''-1'')
       else if U then Inr (''==0'', ''0'')
       else Inl (ValueError (''Return code <<'' @ c @ ''>> unknown'')))"
    unfolding ret_class_def matches_prefix_iff A_def U_def P_def by simp
  have "ret_class c = Inr (''<0'', ''-1'') \<longleftrightarrow> A \<or> (matches_prefix STATUS_PATTERN c \<and> \<not> P)"
    using al unfolding rc by auto
  then show ?thesis unfolding A_def P_def by simp
qed

text \<open>
  C5, as the specification words it, fails on \<open>AB_foo_t\<close>: two uppercase letters, an
  underscore, a lowercase identifier and \<open>_t\<close>, and no classification.
\<close>

theorem spec_status_pattern_counterexample:
  "''AB_foo_t'' \<in> lang SPEC_STATUS_PATTERN
   \<and> ret_class ''AB_foo_t'' = Inl (ValueError ''Return code <<AB_foo_t>> unknown'')"
proof -
  have "''AB_foo_t'' \<in> lang SPEC_STATUS_PATTERN"
    unfolding lang_iff_rmatch by code_simp
  moreover have "ret_class ''AB_foo_t'' = Inl (ValueError ''Return code <<AB_foo_t>> unknown'')"
    by code_simp
  ultimately show ?thesis by simp
qed

lemma ret_class_unknown:
  assumes "\<not> contains c ''*''" and "c \<notin> set [''H5T_conv_t'']"
    and "c \<notin> set [''int'', ''herr_t'', ''htri_t'', ''hid_t'', ''hssize_t'', ''ssize_t'']"
    and "\<not> matches_prefix STATUS_PATTERN c"
    and "c \<notin> set [''unsigned int'', ''haddr_t'', ''hsize_t'', ''size_t'']"
  shows "ret_class c = Inl (ValueError (''Return code <<'' @ c @ ''>> unknown''))"
  using assms unfolding ret_class_def matches_prefix_iff by simp

text \<open>
  C4, as the code has it. A function line whose return type no rule classifies ends the
  run with a \<open>ValueError\<close> whose message is \<open>Return code <<T>> unknown\<close> for the return type
  \<open>T\<close>; the raw and the safe declaration of the line are written before.
\<close>

theorem unknown_return_type_aborts:
  assumes "\<not> is_header_line text" and "strip text \<noteq> []" and "hd (strip text) \<noteq> CHR ''#''"
    and "Line_init (strip text) = Inr l"
    and "\<not> contains (code l) ''*''" and "code l \<notin> set [''H5T_conv_t'']"
    and "code l \<notin> set [''int'', ''herr_t'', ''htri_t'', ''hid_t'', ''hssize_t'', ''ssize_t'']"
    and "\<not> matches_prefix STATUS_PATTERN (code l)"
    and "code l \<notin> set [''unsigned int'', ''haddr_t'', ''hsize_t'', ''size_t'']"
  shows "process_line st text =
           (write_cython_sig l (write_raw_sig l st),
            Some (ValueError (''Return code <<'' @ code l @ ''>> unknown'')))
       \<and> run_lines st (text # rest) =
           (write_cython_sig l (write_raw_sig l st),
            Some (ValueError (''Return code <<'' @ code l @ ''>> unknown'')))"
proof -
  have rc: "ret_class (code l) = Inl (ValueError (''Return code <<'' @ code l @ ''>> unknown''))"
    using assms(5-9) by (rule ret_class_unknown)
  have imp: "write_cython_imp l s = Inl (ValueError (''Return code <<'' @ code l @ ''>> unknown''))"
    for s
    by (simp add: write_cython_imp_def cython_imp_text_def rc)
  have pl: "process_line st text =
           (write_cython_sig l (write_raw_sig l st),
            Some (ValueError (''Return code <<'' @ code l @ ''>> unknown'')))"
    using assms(1-4) by (simp add: process_line_def Let_def imp)
  then show ?thesis by simp
qed

theorem unknown_return_type_aborts_witness:
  "process_line \<lparr>raw_defs = [], cython_defs = [], cython_imp = []\<rparr> ''  double baz(int x)\<newline>'' =
     (write_cython_sig \<lparr> mpi = False, error = False, min_version = None, max_version = None,
           code = ''double'', fname = ''baz'', sig = ''int x'', args = ''x'' \<rparr>
       (write_raw_sig \<lparr> mpi = False, error = False, min_version = None, max_version = None,
           code = ''double'', fname = ''baz'', sig = ''int x'', args = ''x'' \<rparr>
          \<lparr>raw_defs = [], cython_defs = [], cython_imp = []\<rparr>),
      Some (ValueError (''Return code <<'' @ ''double'' @ ''>> unknown'')))
   \<and> run_lines \<lparr>raw_defs = [], cython_defs = [], cython_imp = []\<rparr>
        [''  double baz(int x)\<newline>'', ''  int foo(int y)\<newline>''] =
     (write_cython_sig \<lparr> mpi = False, error = False, min_version = None, max_version = None,
           code = ''double'', fname = ''baz'', sig = ''int x'', args = ''x'' \<rparr>
       (write_raw_sig \<lparr> mpi = False, error = False, min_version = None, max_version = None,
           code = ''double'', fname = ''baz'', sig = ''int x'', args = ''x'' \<rparr>
          \<lparr>raw_defs = [], cython_defs = [], cython_imp = []\<rparr>),
      Some (ValueError (''Return code <<'' @ ''double'' @ ''>> unknown'')))"
proof -
  let ?l = "\<lparr> mpi = False, error = False, min_version = None, max_version = None,
           code = ''double'', fname = ''baz'', sig = ''int x'', args = ''x'' \<rparr>"
  let ?t = "''  double baz(int x)\<newline>''"
  have 1: "\<not> is_header_line ?t" by code_simp
  have 2: "strip ?t \<noteq> []" by code_simp
  have 3: "hd (strip ?t) \<noteq> CHR ''#''" by code_simp
  have 4: "Line_init (strip ?t) = Inr ?l" by code_simp
  have 5: "\<not> contains (code ?l) ''*''" by code_simp
  have 6: "code ?l \<notin> set [''H5T_conv_t'']" by simp
  have 7: "code ?l \<notin> set [''int'', ''herr_t'', ''htri_t'', ''hid_t'', ''hssize_t'', ''ssize_t'']"
    by simp
  have 8: "\<not> matches_prefix STATUS_PATTERN (code ?l)"
    unfolding matches_prefix_iff by code_simp
  have 9: "code ?l \<notin> set [''unsigned int'', ''haddr_t'', ''hsize_t'', ''size_t'']" by simp
  have c: "code ?l = ''double''" by simp
  show ?thesis
    using unknown_return_type_aborts [OF 1 2 3 4 5 6 7 8 9,
        of "\<lparr>raw_defs = [], cython_defs = [], cython_imp = []\<rparr>" "[''  int foo(int y)\<newline>'']"]
    unfolding c .
qed

text \<open>
  C4, as the specification words it, fails on the line \<open>double baz(int x)\<close>: the message
  names the return type and not the function.
\<close>

theorem unknown_return_type_message_counterexample:
  "snd (process_line \<lparr>raw_defs = [], cython_defs = [], cython_imp = []\<rparr>
          ''  double baz(int x)\<newline>'') =
     Some (ValueError ''Return code <<double>> unknown'')
   \<and> \<not> contains ''Return code <<double>> unknown'' ''baz''"
  by code_simp


section \<open>The emitted wrapper\<close>





end
